theory Spec2Isabelle
  imports Complex_Main
begin

section \<open>Tables, cells and the pandas operations the dashboard uses\<close>

text \<open>
  The program (\<^verbatim>\<open>app.py\<close>) reads up to two department files into pandas tables, tags and
  renames their columns, concatenates them, cleans four kinds of column and then filters
  the result and computes four summary numbers.

  A cell is a missing marker (pandas' NaN), a number or a text. The number type \<open>'n\<close> is
  left open: the program never looks inside a number except through library calls, which
  are gathered in the record \<open>numlib\<close> below and passed as a parameter.

  A table has its column names in order and its rows as lists of cells, one cell per
  column. A text is the list of its UTF-8 bytes. Python's whitespace and case tables are
  reproduced for the ASCII characters and for the one character U+0149 (bytes C5 89),
  whose title-case form is the two characters U+02BC U+004E (bytes CA BC 4E); every
  other byte is left as it is.
\<close>

datatype 'n cell = Null | Num 'n | Str string

record 'n DataFrame =
  columns :: "string list"
  rows :: "'n cell list list"

datatype error = KeyError string | TypeError

text \<open>
  The library functions that work on numbers: what \<^verbatim>\<open>pd.to_numeric\<close> makes of a text
  (\<open>None\<close> when the text is not a number), Python's \<^verbatim>\<open>str\<close> of a number, the
  conversion of a row count for the true division, and the sum of a numeric column.
\<close>

record 'n numlib =
  parse_float :: "string \<Rightarrow> 'n option"
  str_of_num :: "'n \<Rightarrow> string"
  of_count :: "nat \<Rightarrow> 'n"
  sum_values :: "'n list \<Rightarrow> 'n"

text \<open>\<^verbatim>\<open>pd.DataFrame()\<close>: no columns, no rows.\<close>

definition empty_frame :: "'n DataFrame" where
  "empty_frame = \<lparr>columns = [], rows = []\<rparr>"

text \<open>\<^verbatim>\<open>df.empty\<close>: some axis has length 0.\<close>

definition df_empty :: "'n DataFrame \<Rightarrow> bool" where
  "df_empty df = (columns df = [] \<or> rows df = [])"

text \<open>
  The cell of row \<open>r\<close> under the column named \<open>c\<close>; a column the row's table does not
  have reads as missing, which is what re-indexing on concatenation fills in.
\<close>

definition cell_at :: "string list \<Rightarrow> 'n cell list \<Rightarrow> string \<Rightarrow> 'n cell" where
  "cell_at cols r c = (case map_of (zip cols r) c of Some v \<Rightarrow> v | None \<Rightarrow> Null)"

text \<open>The values of one column, top to bottom (the Series \<^verbatim>\<open>df[c]\<close> of an existing column).\<close>

definition column_values :: "'n DataFrame \<Rightarrow> string \<Rightarrow> 'n cell list" where
  "column_values df c = map (\<lambda>r. cell_at (columns df) r c) (rows df)"

text \<open>\<^verbatim>\<open>df[c] = f(df[c])\<close> for a cell-wise \<open>f\<close>: every cell under the name \<open>c\<close> is replaced.\<close>

definition map_column :: "string \<Rightarrow> ('n cell \<Rightarrow> 'n cell) \<Rightarrow> 'n DataFrame \<Rightarrow> 'n DataFrame" where
  "map_column c f df =
     df\<lparr>rows := map (\<lambda>r. map2 (\<lambda>n v. if n = c then f v else v) (columns df) r) (rows df)\<rparr>"

text \<open>
  \<^verbatim>\<open>df[c] = v\<close> for a scalar \<open>v\<close>: an existing column is overwritten, a new one is
  appended on the right.
\<close>

definition set_column :: "string \<Rightarrow> 'n cell \<Rightarrow> 'n DataFrame \<Rightarrow> 'n DataFrame" where
  "set_column c v df =
     (if c \<in> set (columns df) then map_column c (\<lambda>_. v) df
      else \<lparr>columns = columns df @ [c], rows = map (\<lambda>r. r @ [v]) (rows df)\<rparr>)"

text \<open>The alias map of \<^verbatim>\<open>df.rename(columns={...})\<close> (lines 44-47).\<close>

definition canonical :: "string \<Rightarrow> string" where
  "canonical c =
     (if c = ''Funding agency'' then ''Funding Agency''
      else if c = ''Co-Investigator'' then ''Co-investigator''
      else c)"

definition rename_columns :: "'n DataFrame \<Rightarrow> 'n DataFrame" where
  "rename_columns df = df\<lparr>columns := map canonical (columns df)\<rparr>"

text \<open>
  \<^verbatim>\<open>pd.concat(dfs, ignore_index=True)\<close>: the columns are the union of the batches'
  columns in the order in which they first appear, the rows follow batch by batch, and a
  row gets the missing marker under every column its batch did not have.
\<close>

definition add_new :: "string list \<Rightarrow> string \<Rightarrow> string list" where
  "add_new acc c = (if c \<in> set acc then acc else acc @ [c])"

definition union_columns :: "string list list \<Rightarrow> string list" where
  "union_columns css = foldl add_new [] (concat css)"

definition reindex :: "string list \<Rightarrow> 'n DataFrame \<Rightarrow> 'n cell list list" where
  "reindex cols df = map (\<lambda>r. map (cell_at (columns df) r) cols) (rows df)"

definition concat_frames :: "'n DataFrame list \<Rightarrow> 'n DataFrame" where
  "concat_frames dfs =
     (let cols = union_columns (map columns dfs)
      in \<lparr>columns = cols, rows = concat (map (reindex cols) dfs)\<rparr>)"

subsection \<open>Cell-wise cleaning functions\<close>

text \<open>
  \<^verbatim>\<open>pd.to_numeric(..., errors='coerce')\<close> on one cell: a number stays, a text is parsed,
  and whatever is not a number becomes the missing marker.
\<close>

definition to_numeric :: "'n numlib \<Rightarrow> 'n cell \<Rightarrow> 'n cell" where
  "to_numeric lib v =
     (case v of
        Null \<Rightarrow> Null
      | Num x \<Rightarrow> Num x
      | Str s \<Rightarrow> (case parse_float lib s of Some x \<Rightarrow> Num x | None \<Rightarrow> Null))"

text \<open>\<^verbatim>\<open>.fillna(d)\<close> on one cell.\<close>

definition fillna :: "'n cell \<Rightarrow> 'n cell \<Rightarrow> 'n cell" where
  "fillna d v = (case v of Null \<Rightarrow> d | _ \<Rightarrow> v)"

text \<open>\<^verbatim>\<open>.astype(str)\<close> on one cell: the missing marker becomes the text \<^verbatim>\<open>nan\<close>.\<close>

definition astype_str :: "'n numlib \<Rightarrow> 'n cell \<Rightarrow> string" where
  "astype_str lib v = (case v of Null \<Rightarrow> ''nan'' | Num x \<Rightarrow> str_of_num lib x | Str s \<Rightarrow> s)"

text \<open>
  Python's \<^verbatim>\<open>str.isspace\<close>, \<^verbatim>\<open>str.lower\<close> and \<^verbatim>\<open>str.upper\<close> on one byte: the ASCII
  whitespace characters are 9 to 13 and 28 to 32, the ASCII letters change case.
\<close>

definition is_space :: "char \<Rightarrow> bool" where
  "is_space c = (let n = (of_char c :: nat) in (9 \<le> n \<and> n \<le> 13) \<or> (28 \<le> n \<and> n \<le> 32))"

definition lower_char :: "char \<Rightarrow> char" where
  "lower_char c =
     (let n = (of_char c :: nat) in if 65 \<le> n \<and> n \<le> 90 then char_of (n + 32) else c)"

definition upper_char :: "char \<Rightarrow> char" where
  "upper_char c =
     (let n = (of_char c :: nat) in if 97 \<le> n \<and> n \<le> 122 then char_of (n - 32) else c)"

text \<open>
  \<^verbatim>\<open>.str.strip()\<close>, \<^verbatim>\<open>.str.lower()\<close>, \<^verbatim>\<open>.str.capitalize()\<close> on one text.
  \<^verbatim>\<open>capitalize\<close> puts the first character into title case and the rest into lower case;
  the title-case form of U+0149 is U+02BC followed by a capital N.
\<close>

definition strip :: "string \<Rightarrow> string" where
  "strip s = rev (dropWhile is_space (rev (dropWhile is_space s)))"

definition lower :: "string \<Rightarrow> string" where
  "lower s = map lower_char s"

definition capitalize :: "string \<Rightarrow> string" where
  "capitalize s =
     (if take 2 s = [CHR 0xC5, CHR 0x89]
      then [CHR 0xCA, CHR 0xBC, CHR ''N''] @ map lower_char (drop 2 s)
      else (case s of [] \<Rightarrow> [] | c # cs \<Rightarrow> upper_char c # map lower_char cs))"

text \<open>The chain of lines 61-66 after \<^verbatim>\<open>astype(str)\<close>, and the whole chain on a cell.\<close>

definition status_case :: "string \<Rightarrow> string" where
  "status_case s = capitalize (lower (strip s))"

definition clean_status :: "'n numlib \<Rightarrow> 'n cell \<Rightarrow> 'n cell" where
  "clean_status lib v = Str (status_case (astype_str lib v))"

text \<open>Line 57 on one cell: \<^verbatim>\<open>to_numeric(errors='coerce')\<close>, then \<^verbatim>\<open>fillna(0)\<close>.\<close>

definition clean_amount :: "('n::zero) numlib \<Rightarrow> 'n cell \<Rightarrow> 'n cell" where
  "clean_amount lib v = fillna (Num 0) (to_numeric lib v)"

section \<open>Loading\<close>

text \<open>
  The file system as the loader sees it: whether a name exists, and what each of the
  three reads returns: a table, a decoding error, or any other exception.
\<close>

datatype encoding = Utf8 | Latin1

datatype 'n read_result = Table "'n DataFrame" | UnicodeDecodeError | OtherError

record 'n files =
  path_exists :: "string \<Rightarrow> bool"
  read_excel :: "string \<Rightarrow> 'n read_result"
  read_csv :: "string \<Rightarrow> encoding \<Rightarrow> 'n read_result"

text \<open>What the loader does besides returning: the reads it makes and the messages it shows.\<close>

datatype event =
    ReadExcel string
  | ReadCsv string encoding
  | Toast string
  | WarnAnyEncoding string
  | WarnRead string
  | ErrorNoData string

definition files_to_check :: "(string \<times> string \<times> string) list" where
  "files_to_check =
     [(''CSE'', ''CSEDATA.xlsx'', ''CSEDATA.xlsx - Sheet1.csv''),
      (''ECE'', ''ECEDATA.xlsx'', ''ECEDATA.xlsx - Sheet1.csv'')]"

text \<open>Lines 22-26: the spreadsheet attempt; every exception of the read is swallowed.\<close>

definition try_excel :: "'n files \<Rightarrow> string \<Rightarrow> 'n DataFrame option \<times> event list" where
  "try_excel fs xlsx_name =
     (if path_exists fs xlsx_name then
        (case read_excel fs xlsx_name of
           Table t \<Rightarrow> (Some t, [ReadExcel xlsx_name])
         | UnicodeDecodeError \<Rightarrow> (None, [ReadExcel xlsx_name])
         | OtherError \<Rightarrow> (None, [ReadExcel xlsx_name]))
      else (None, []))"

text \<open>Lines 28-39: the CSV attempt, made only when no table was read so far.\<close>

definition try_csv :: "'n files \<Rightarrow> string \<Rightarrow> string \<Rightarrow> 'n DataFrame option \<times> event list" where
  "try_csv fs dept csv_name =
     (if path_exists fs csv_name then
        (case read_csv fs csv_name Utf8 of
           Table t \<Rightarrow> (Some t, [ReadCsv csv_name Utf8])
         | UnicodeDecodeError \<Rightarrow>
             (case read_csv fs csv_name Latin1 of
                Table t \<Rightarrow> (Some t, [ReadCsv csv_name Utf8, ReadCsv csv_name Latin1, Toast dept])
              | UnicodeDecodeError \<Rightarrow>
                  (None, [ReadCsv csv_name Utf8, ReadCsv csv_name Latin1, WarnAnyEncoding csv_name])
              | OtherError \<Rightarrow>
                  (None, [ReadCsv csv_name Utf8, ReadCsv csv_name Latin1, WarnAnyEncoding csv_name]))
         | OtherError \<Rightarrow> (None, [ReadCsv csv_name Utf8, WarnRead csv_name]))
      else (None, []))"

text \<open>Lines 20-39 for one source: the table read, if any, and the events.\<close>

definition read_source ::
  "'n files \<Rightarrow> string \<times> string \<times> string \<Rightarrow> 'n DataFrame option \<times> event list" where
  "read_source fs src =
     (case src of (dept, xlsx_name, csv_name) \<Rightarrow>
        (case try_excel fs xlsx_name of
           (Some t, ev) \<Rightarrow> (Some t, ev)
         | (None, ev) \<Rightarrow>
             (case try_csv fs dept csv_name of (df, ev') \<Rightarrow> (df, ev @ ev'))))"

text \<open>Lines 42-47: the department tag, then the aliases.\<close>

definition tag_batch :: "string \<Rightarrow> 'n DataFrame \<Rightarrow> 'n DataFrame" where
  "tag_batch dept t = rename_columns (set_column ''Department'' (Str dept) t)"

text \<open>The loop of lines 19-50: the batches collected in \<^verbatim>\<open>dfs\<close> and all events, in order.\<close>

fun load_sources ::
  "'n files \<Rightarrow> (string \<times> string \<times> string) list \<Rightarrow> 'n DataFrame list \<times> event list" where
  "load_sources fs [] = ([], [])"
| "load_sources fs (src # rest) =
     (case read_source fs src of
        (Some t, ev) \<Rightarrow>
          (case load_sources fs rest of (dfs, evs) \<Rightarrow> (tag_batch (fst src) t # dfs, ev @ evs))
      | (None, ev) \<Rightarrow>
          (case load_sources fs rest of (dfs, evs) \<Rightarrow> (dfs, ev @ [ErrorNoData (fst src)] @ evs)))"

text \<open>
  Lines 57-74 on the concatenated table. Line 57 reads the amount column without
  checking that it is there; the other four columns are guarded.
\<close>

definition clean :: "('n::zero) numlib \<Rightarrow> 'n DataFrame \<Rightarrow> error + 'n DataFrame" where
  "clean lib df =
     (if ''Amount(in lakhs)'' \<notin> set (columns df) then Inl (KeyError ''Amount(in lakhs)'')
      else
        let df1 = map_column ''Amount(in lakhs)'' (clean_amount lib) df;
            df2 = (if ''Status'' \<in> set (columns df1)
                   then map_column ''Status'' (clean_status lib) df1 else df1);
            df3 = (if ''Co-investigator'' \<in> set (columns df2)
                   then map_column ''Co-investigator'' (fillna (Str ''None'')) df2 else df2);
            df4 = (if ''Domain'' \<in> set (columns df3)
                   then map_column ''Domain'' (fillna (Str ''Unspecified'')) df3 else df3);
            df5 = (if ''Faculty Name'' \<in> set (columns df4)
                   then map_column ''Faculty Name'' (fillna (Str ''Unknown'')) df4 else df4)
        in Inr df5)"

text \<open>
  The Normalizer of the specification on a list of batches: aliases (lines 44-47),
  concatenation (line 55), cleaning (lines 57-74).
\<close>

definition normalizer :: "('n::zero) numlib \<Rightarrow> 'n DataFrame list \<Rightarrow> error + 'n DataFrame" where
  "normalizer lib batches = clean lib (concat_frames (map rename_columns batches))"

text \<open>The table of line 55, before cleaning.\<close>

definition unified :: "'n files \<Rightarrow> 'n DataFrame" where
  "unified fs = concat_frames (fst (load_sources fs files_to_check))"

text \<open>\<^verbatim>\<open>load_and_clean_data\<close>: the events, and the exception or the table returned.\<close>

definition load_and_clean_data ::
  "('n::zero) numlib \<Rightarrow> 'n files \<Rightarrow> event list \<times> (error + 'n DataFrame)" where
  "load_and_clean_data lib fs =
     (case load_sources fs files_to_check of
        (dfs, evs) \<Rightarrow>
          if dfs = [] then (evs, Inr empty_frame)
          else (evs, clean lib (concat_frames dfs)))"

section \<open>Filtering and summary numbers\<close>

text \<open>\<^verbatim>\<open>df[df[c] == v]\<close> for a text \<open>v\<close>: reading a column that is not there raises.\<close>

definition select_eq :: "string \<Rightarrow> string \<Rightarrow> 'n DataFrame \<Rightarrow> error + 'n DataFrame" where
  "select_eq c v df =
     (if c \<notin> set (columns df) then Inl (KeyError c)
      else Inr (df\<lparr>rows := filter (\<lambda>r. cell_at (columns df) r c = Str v) (rows df)\<rparr>))"

text \<open>Lines 100-104.\<close>

definition apply_filters :: "'n DataFrame \<Rightarrow> string \<Rightarrow> string \<Rightarrow> error + 'n DataFrame" where
  "apply_filters df selected_dept selected_status =
     (case (if selected_dept \<noteq> ''All'' then select_eq ''Department'' selected_dept df
            else Inr df) of
        Inl e \<Rightarrow> Inl e
      | Inr df_filtered \<Rightarrow>
          if selected_status \<noteq> ''All'' \<and> ''Status'' \<in> set (columns df_filtered)
          then select_eq ''Status'' selected_status df_filtered
          else Inr df_filtered)"

record 'n metrics =
  total_funding :: 'n
  total_projects :: nat
  unique_faculty :: nat
  avg_funding :: 'n

definition is_text :: "'n cell \<Rightarrow> bool" where
  "is_text v = (case v of Str _ \<Rightarrow> True | _ \<Rightarrow> False)"

definition num_of :: "'n cell \<Rightarrow> 'n option" where
  "num_of v = (case v of Num x \<Rightarrow> Some x | _ \<Rightarrow> None)"

text \<open>
  \<^verbatim>\<open>Series.sum()\<close> followed by arithmetic: missing cells are skipped; a text in the column
  ends in a type error (at the sum, or at the division that follows).
\<close>

definition series_sum :: "'n numlib \<Rightarrow> 'n cell list \<Rightarrow> error + 'n" where
  "series_sum lib col =
     (if list_ex is_text col then Inl TypeError
      else Inr (sum_values lib (List.map_filter num_of col)))"

text \<open>\<^verbatim>\<open>Series.nunique()\<close>: the number of distinct values that are not missing.\<close>

definition nunique :: "'n cell list \<Rightarrow> nat" where
  "nunique col = length (remdups (filter (\<lambda>v. v \<noteq> Null) col))"

text \<open>Lines 109-112; \<open>df\<close> is the unfiltered table, whose columns line 111 looks at.\<close>

definition compute_metrics ::
  "('n::{zero,inverse}) numlib \<Rightarrow> 'n DataFrame \<Rightarrow> 'n DataFrame \<Rightarrow> error + 'n metrics" where
  "compute_metrics lib df df_filtered =
     (if ''Amount(in lakhs)'' \<notin> set (columns df_filtered)
      then Inl (KeyError ''Amount(in lakhs)'')
      else
        (case series_sum lib (column_values df_filtered ''Amount(in lakhs)'') of
           Inl e \<Rightarrow> Inl e
         | Inr funding \<Rightarrow>
             let n = length (rows df_filtered);
                 uf = (if ''Faculty Name'' \<in> set (columns df)
                       then nunique (column_values df_filtered ''Faculty Name'') else 0);
                 avg = (if n > 0 then funding / of_count lib n else 0)
             in Inr \<lparr>total_funding = funding, total_projects = n,
                      unique_faculty = uf, avg_funding = avg\<rparr>))"

text \<open>
  \<^verbatim>\<open>main\<close> up to line 112, with the two sidebar choices as arguments: it stops on an
  empty table, or shows the filtered table and its four numbers, or an exception escapes.
\<close>

datatype 'n outcome = Stopped | Raised error | Shown "'n DataFrame" "'n metrics"

definition main ::
  "('n::{zero,inverse}) numlib \<Rightarrow> 'n files \<Rightarrow> string \<Rightarrow> string \<Rightarrow> 'n outcome" where
  "main lib fs chosen_dept chosen_status =
     (case snd (load_and_clean_data lib fs) of
        Inl e \<Rightarrow> Raised e
      | Inr df \<Rightarrow>
          if df_empty df then Stopped
          else if ''Department'' \<notin> set (columns df) then Raised (KeyError ''Department'')
          else
            let selected_status =
                  (if ''Status'' \<in> set (columns df) then chosen_status else ''All'')
            in (case apply_filters df chosen_dept selected_status of
                  Inl e \<Rightarrow> Raised e
                | Inr df_filtered \<Rightarrow>
                    (case compute_metrics lib df df_filtered of
                       Inl e \<Rightarrow> Raised e
                     | Inr m \<Rightarrow> Shown df_filtered m)))"

section \<open>Tables as the readers return them\<close>

text \<open>
  \<^verbatim>\<open>read_excel\<close> and \<^verbatim>\<open>read_csv\<close> return rectangular tables whose headers are
  pairwise different (pandas renames a repeated header). The theorem on the department
  tag is stated for files that, in addition, do not hold a column under both an alias
  and its canonical name, so that renaming keeps the headers different; what pandas does
  with a header repeated by renaming is not modelled.
\<close>

definition rectangular :: "'n DataFrame \<Rightarrow> bool" where
  "rectangular df = list_all (\<lambda>r. length r = length (columns df)) (rows df)"

definition wf_table :: "'n DataFrame \<Rightarrow> bool" where
  "wf_table t = (distinct (map canonical (columns t)) \<and> rectangular t)"

definition wf_result :: "'n read_result \<Rightarrow> bool" where
  "wf_result res = (case res of Table t \<Rightarrow> wf_table t | _ \<Rightarrow> True)"

definition wf_files :: "'n files \<Rightarrow> bool" where
  "wf_files fs =
     list_all (\<lambda>src. case src of (dept, xlsx_name, csv_name) \<Rightarrow>
                 wf_result (read_excel fs xlsx_name) \<and>
                 wf_result (read_csv fs csv_name Utf8) \<and>
                 wf_result (read_csv fs csv_name Latin1))
       files_to_check"

section \<open>When a source does not load\<close>

text \<open>
  A source fails to load when its spreadsheet is absent or unreadable and its CSV file is
  absent, or fails other than by decoding, or fails under both encodings.
\<close>

definition is_table :: "'n read_result \<Rightarrow> bool" where
  "is_table res = (case res of Table _ \<Rightarrow> True | _ \<Rightarrow> False)"

definition source_fails :: "'n files \<Rightarrow> string \<times> string \<times> string \<Rightarrow> bool" where
  "source_fails fs src =
     (case src of (dept, xlsx_name, csv_name) \<Rightarrow>
        (\<not> path_exists fs xlsx_name \<or> \<not> is_table (read_excel fs xlsx_name)) \<and>
        (\<not> path_exists fs csv_name \<or>
         (case read_csv fs csv_name Utf8 of
            Table _ \<Rightarrow> False
          | UnicodeDecodeError \<Rightarrow> \<not> is_table (read_csv fs csv_name Latin1)
          | OtherError \<Rightarrow> True)))"

section \<open>ASCII texts\<close>

definition is_ascii :: "char \<Rightarrow> bool" where
  "is_ascii c = ((of_char c :: nat) < 128)"

text \<open>Every text in the status column of a table is made of ASCII characters.\<close>

definition ascii_status :: "'n DataFrame \<Rightarrow> bool" where
  "ascii_status df =
     list_all (\<lambda>v. case v of Str t \<Rightarrow> list_all is_ascii t | _ \<Rightarrow> True)
       (column_values df ''Status'')"

section \<open>Auxiliary notions\<close>

text \<open>A text without whitespace at either end.\<close>

definition stripped :: "string \<Rightarrow> bool" where
  "stripped s = (s = [] \<or> (\<not> is_space (hd s) \<and> \<not> is_space (last s)))"

text \<open>One function per column name applied to every cell, and the one lines 57-74 apply.\<close>

definition cellwise :: "(string \<Rightarrow> 'n cell \<Rightarrow> 'n cell) \<Rightarrow> 'n DataFrame \<Rightarrow> 'n DataFrame" where
  "cellwise g df = df\<lparr>rows := map (\<lambda>r. map2 g (columns df) r) (rows df)\<rparr>"

definition clean_cell :: "('n::zero) numlib \<Rightarrow> string \<Rightarrow> 'n cell \<Rightarrow> 'n cell" where
  "clean_cell lib n v =
     (if n = ''Amount(in lakhs)'' then clean_amount lib v
      else if n = ''Status'' then clean_status lib v
      else if n = ''Co-investigator'' then fillna (Str ''None'') v
      else if n = ''Domain'' then fillna (Str ''Unspecified'') v
      else if n = ''Faculty Name'' then fillna (Str ''Unknown'') v
      else v)"

section \<open>Worked inputs\<close>

text \<open>
  A small number library over the reals for the worked examples: it parses texts made of
  decimal digits and sums with \<open>sum_list\<close>.
\<close>

fun digits_value :: "string \<Rightarrow> nat \<Rightarrow> nat option" where
  "digits_value [] acc = Some acc"
| "digits_value (c # cs) acc =
     (let n = (of_char c :: nat)
      in if 48 \<le> n \<and> n \<le> 57 then digits_value cs (10 * acc + (n - 48)) else None)"

definition example_lib :: "real numlib" where
  "example_lib =
     \<lparr>parse_float = (\<lambda>s. if s = [] then None else map_option real (digits_value s 0)),
      str_of_num = (\<lambda>x. ''number''),
      of_count = real,
      sum_values = sum_list\<rparr>"

text \<open>A directory that holds the given spreadsheets, all readable, and nothing else.\<close>

definition spreadsheets :: "(string \<times> 'n DataFrame) list \<Rightarrow> 'n files" where
  "spreadsheets xs =
     \<lparr>path_exists = (\<lambda>name. map_of xs name \<noteq> None),
      read_excel = (\<lambda>name. case map_of xs name of Some t \<Rightarrow> Table t | None \<Rightarrow> OtherError),
      read_csv = (\<lambda>name enc. OtherError)\<rparr>"

text \<open>The two-source scenario of the specification.\<close>

definition scenario_files :: "real files" where
  "scenario_files =
     spreadsheets
       [(''CSEDATA.xlsx'',
         \<lparr>columns = [''Status'', ''Amount(in lakhs)''],
          rows = [[Str '' ongoing '', Str ''10'']]\<rparr>),
        (''ECEDATA.xlsx'',
         \<lparr>columns = [''Status'', ''Amount(in lakhs)''],
          rows = [[Str ''COMPLETED'', Str ''abc'']]\<rparr>)]"

text \<open>Two spreadsheets with missing entries; the second lacks four of the columns.\<close>

definition gaps_files :: "real files" where
  "gaps_files =
     spreadsheets
       [(''CSEDATA.xlsx'',
         \<lparr>columns = [''Faculty Name'', ''Co-Investigator'', ''Domain'', ''Status'',
                     ''Amount(in lakhs)''],
          rows = [[Null, Null, Null, Null, Str ''5'']]\<rparr>),
        (''ECEDATA.xlsx'',
         \<lparr>columns = [''Faculty Name'', ''Amount(in lakhs)''],
          rows = [[Str ''Rao'', Str ''2'']]\<rparr>)]"

definition gaps_result :: "real DataFrame" where
  "gaps_result =
     \<lparr>columns = [''Faculty Name'', ''Co-investigator'', ''Domain'', ''Status'',
                 ''Amount(in lakhs)'', ''Department''],
      rows = [[Str ''Unknown'', Str ''None'', Str ''Unspecified'', Str ''Nan'', Num 5, Str ''CSE''],
              [Str ''Rao'', Str ''None'', Str ''Unspecified'', Str ''Nan'', Num 2, Str ''ECE'']]\<rparr>"

text \<open>What the loader returns for the two-source scenario.\<close>

definition scenario_result :: "real DataFrame" where
  "scenario_result =
     \<lparr>columns = [''Status'', ''Amount(in lakhs)'', ''Department''],
      rows = [[Str ''Ongoing'', Num 10, Str ''CSE''], [Str ''Completed'', Num 0, Str ''ECE'']]\<rparr>"

text \<open>A directory without any of the four files.\<close>

definition empty_directory :: "real files" where
  "empty_directory =
     \<lparr>path_exists = (\<lambda>name. False),
      read_excel = (\<lambda>name. OtherError),
      read_csv = (\<lambda>name enc. OtherError)\<rparr>"

text \<open>
  A directory with the two CSV files only: the first decodes under Latin-1 only, the
  second cannot be parsed. And a directory with the two spreadsheets, the first unreadable.
\<close>

definition latin1_files :: "real files" where
  "latin1_files =
     \<lparr>path_exists = (\<lambda>name. name = ''CSEDATA.xlsx - Sheet1.csv'' \<or>
                             name = ''ECEDATA.xlsx - Sheet1.csv''),
      read_excel = (\<lambda>name. OtherError),
      read_csv = (\<lambda>name enc.
         if name = ''CSEDATA.xlsx - Sheet1.csv'' then
           (case enc of
              Utf8 \<Rightarrow> UnicodeDecodeError
            | Latin1 \<Rightarrow> Table \<lparr>columns = [''Amount(in lakhs)''], rows = [[Str ''4'']]\<rparr>)
         else OtherError)\<rparr>"

definition broken_spreadsheet_files :: "real files" where
  "broken_spreadsheet_files =
     \<lparr>path_exists = (\<lambda>name. name = ''CSEDATA.xlsx'' \<or> name = ''ECEDATA.xlsx''),
      read_excel = (\<lambda>name.
         if name = ''ECEDATA.xlsx''
         then Table \<lparr>columns = [''Amount(in lakhs)''], rows = [[Str ''3'']]\<rparr>
         else OtherError),
      read_csv = (\<lambda>name enc. OtherError)\<rparr>"

text \<open>
  A table whose one status is the text U+0149, and what the Normalizer makes of it when
  run once and twice.
\<close>

definition apostrophe_n_table :: "real DataFrame" where
  "apostrophe_n_table =
     \<lparr>columns = [''Status'', ''Amount(in lakhs)''],
      rows = [[Str [CHR 0xC5, CHR 0x89], Str ''1'']]\<rparr>"

definition apostrophe_n_once :: "real DataFrame" where
  "apostrophe_n_once =
     \<lparr>columns = [''Status'', ''Amount(in lakhs)''],
      rows = [[Str [CHR 0xCA, CHR 0xBC, CHR ''N''], Num 1]]\<rparr>"

definition apostrophe_n_twice :: "real DataFrame" where
  "apostrophe_n_twice =
     \<lparr>columns = [''Status'', ''Amount(in lakhs)''],
      rows = [[Str [CHR 0xCA, CHR 0xBC, CHR ''n''], Num 1]]\<rparr>"

text \<open>One readable spreadsheet that has a title column and no amount column.\<close>

definition titles_only_files :: "real files" where
  "titles_only_files =
     spreadsheets
       [(''CSEDATA.xlsx'', \<lparr>columns = [''Title''], rows = [[Str ''Compilers'']]\<rparr>)]"

section \<open>Texts: case, whitespace and the status chain\<close>

lemma of_char_lower_char:
  "(of_char (lower_char c) :: nat) =
     (if 65 \<le> (of_char c :: nat) \<and> (of_char c :: nat) \<le> 90 then of_char c + 32 else of_char c)"
  by (simp add: lower_char_def Let_def)

lemma of_char_upper_char:
  "(of_char (upper_char c) :: nat) =
     (if 97 \<le> (of_char c :: nat) \<and> (of_char c :: nat) \<le> 122 then of_char c - 32 else of_char c)"
  by (auto simp add: upper_char_def Let_def)

lemma char_eq_by_code: "(of_char c :: nat) = of_char d \<Longrightarrow> c = d"
  by simp

lemma lower_char_idem: "lower_char (lower_char c) = lower_char c"
  by (rule char_eq_by_code) (simp add: of_char_lower_char)

lemma lower_upper_char: "lower_char (upper_char c) = lower_char c"
  by (rule char_eq_by_code) (auto simp add: of_char_lower_char of_char_upper_char)

lemma upper_lower_upper_char: "upper_char (lower_char (upper_char c)) = upper_char c"
  by (rule char_eq_by_code) (auto simp add: of_char_lower_char of_char_upper_char)

lemma is_space_lower_char: "is_space (lower_char c) = is_space c"
  by (auto simp add: is_space_def of_char_lower_char Let_def)

lemma is_space_upper_char: "is_space (upper_char c) = is_space c"
  by (auto simp add: is_space_def of_char_upper_char Let_def)

lemma last_dropWhile: "dropWhile P xs \<noteq> [] \<Longrightarrow> last (dropWhile P xs) = last xs"
  by (metis last_appendR takeWhile_dropWhile_id)

lemma dropWhile_unchanged: "xs \<noteq> [] \<Longrightarrow> \<not> P (hd xs) \<Longrightarrow> dropWhile P xs = xs"
  by (cases xs) simp_all

lemma stripped_strip: "stripped (strip s)"
proof (cases "dropWhile is_space (rev (dropWhile is_space s)) = []")
  case True
  then show ?thesis by (simp add: stripped_def strip_def)
next
  case False
  let ?u = "dropWhile is_space s"
  let ?w = "dropWhile is_space (rev ?u)"
  have u: "?u \<noteq> []"
  proof
    assume e: "?u = []"
    have "?w = []" unfolding e by simp
    with False show False by simp
  qed
  have hw: "\<not> is_space (hd ?w)" using False by (rule hd_dropWhile)
  have "last ?w = last (rev ?u)" using False by (rule last_dropWhile)
  also have "\<dots> = hd ?u" using u by (simp add: last_rev)
  finally have lw: "\<not> is_space (last ?w)" using hd_dropWhile [OF u] by simp
  have "strip s = rev ?w" by (simp add: strip_def)
  moreover have "hd (rev ?w) = last ?w" using False by (simp add: hd_rev)
  moreover have "last (rev ?w) = hd ?w" using False by (simp add: last_rev)
  ultimately show ?thesis using hw lw by (simp add: stripped_def)
qed

lemma strip_stripped: "stripped s \<Longrightarrow> strip s = s"
proof (cases "s = []")
  case True then show ?thesis by (simp add: strip_def)
next
  case False
  assume "stripped s"
  then have h: "\<not> is_space (hd s)" and l: "\<not> is_space (last s)"
    using False by (auto simp: stripped_def)
  have 1: "dropWhile is_space s = s" using False h by (rule dropWhile_unchanged)
  have "rev s \<noteq> []" using False by simp
  moreover have "\<not> is_space (hd (rev s))" using False l by (simp add: hd_rev)
  ultimately have 2: "dropWhile is_space (rev s) = rev s" by (rule dropWhile_unchanged)
  show ?thesis by (simp add: strip_def 1 2)
qed

lemma stripped_lower: "stripped s \<Longrightarrow> stripped (lower s)"
  by (cases s) (auto simp: stripped_def lower_def is_space_lower_char last_map)

lemma capitalize_plain:
  "take 2 s \<noteq> [CHR 0xC5, CHR 0x89] \<Longrightarrow>
     capitalize s = (case s of [] \<Rightarrow> [] | c # cs \<Rightarrow> upper_char c # map lower_char cs)"
  by (simp add: capitalize_def)

lemma ascii_capitalize_plain:
  assumes "list_all is_ascii (capitalize s)"
  shows "take 2 s \<noteq> [CHR 0xC5, CHR 0x89]"
proof
  assume "take 2 s = [CHR 0xC5, CHR 0x89]"
  then have "capitalize s = [CHR 0xCA, CHR 0xBC, CHR ''N''] @ map lower_char (drop 2 s)"
    by (simp add: capitalize_def)
  then have "is_ascii (CHR 0xCA)" using assms by simp
  then show False by (simp add: is_ascii_def)
qed

lemma stripped_capitalize_plain:
  assumes "stripped s" and "take 2 s \<noteq> [CHR 0xC5, CHR 0x89]"
  shows "stripped (capitalize s)"
  using assms(1) unfolding capitalize_plain [OF assms(2)]
  by (cases s) (auto simp: stripped_def is_space_lower_char is_space_upper_char last_map)

lemma lower_capitalize_plain:
  assumes "take 2 s \<noteq> [CHR 0xC5, CHR 0x89]"
  shows "lower (capitalize s) = lower s"
  unfolding capitalize_plain [OF assms]
  by (cases s) (simp_all add: lower_def lower_char_idem lower_upper_char)

lemma lower_idem: "lower (lower s) = lower s"
  by (simp add: lower_def lower_char_idem)

text \<open>A result of the status chain that is ASCII is a fixed point of the chain.\<close>

lemma status_case_fixed:
  assumes "list_all is_ascii (status_case u)"
  shows "status_case (status_case u) = status_case u"
proof -
  let ?w = "lower (strip u)"
  have t: "status_case u = capitalize ?w" by (simp add: status_case_def)
  have p: "take 2 ?w \<noteq> [CHR 0xC5, CHR 0x89]"
    using assms unfolding t by (rule ascii_capitalize_plain)
  have "stripped ?w" by (rule stripped_lower) (rule stripped_strip)
  then have "stripped (capitalize ?w)" using p by (rule stripped_capitalize_plain)
  then have "strip (capitalize ?w) = capitalize ?w" by (rule strip_stripped)
  then have "status_case (capitalize ?w) = capitalize (lower (capitalize ?w))"
    by (simp add: status_case_def)
  also have "\<dots> = capitalize (lower ?w)" by (simp only: lower_capitalize_plain [OF p])
  also have "\<dots> = capitalize ?w" by (simp only: lower_idem)
  finally show ?thesis by (simp only: t)
qed

lemma is_ascii_lower_char: "is_ascii c \<Longrightarrow> is_ascii (lower_char c)"
  by (auto simp: is_ascii_def of_char_lower_char)

lemma is_ascii_upper_char: "is_ascii c \<Longrightarrow> is_ascii (upper_char c)"
  by (auto simp: is_ascii_def of_char_upper_char)

lemma ascii_strip: "list_all is_ascii s \<Longrightarrow> list_all is_ascii (strip s)"
proof -
  assume a: "list_all is_ascii s"
  have "set (strip s) \<subseteq> set s"
  proof
    fix x assume "x \<in> set (strip s)"
    then have "x \<in> set (dropWhile is_space (rev (dropWhile is_space s)))"
      by (simp add: strip_def)
    then have "x \<in> set (rev (dropWhile is_space s))" by (rule set_dropWhileD)
    then have "x \<in> set (dropWhile is_space s)" by simp
    then show "x \<in> set s" by (rule set_dropWhileD)
  qed
  then show ?thesis using a by (auto simp: list_all_iff)
qed

lemma ascii_lower: "list_all is_ascii s \<Longrightarrow> list_all is_ascii (lower s)"
  by (simp add: lower_def list_all_iff is_ascii_lower_char)

lemma ascii_capitalize: "list_all is_ascii s \<Longrightarrow> list_all is_ascii (capitalize s)"
proof -
  assume a: "list_all is_ascii s"
  have "take 2 s \<noteq> [CHR 0xC5, CHR 0x89]"
  proof
    assume e: "take 2 s = [CHR 0xC5, CHR 0x89]"
    then have "CHR 0xC5 \<in> set (take 2 s)" by simp
    then have "CHR 0xC5 \<in> set s" by (rule in_set_takeD)
    then have "is_ascii (CHR 0xC5)" using a by (simp add: list_all_iff)
    then show False by (simp add: is_ascii_def)
  qed
  then show ?thesis using a
    by (cases s) (simp_all add: capitalize_plain list_all_iff is_ascii_lower_char is_ascii_upper_char)
qed

lemma ascii_status_case: "list_all is_ascii s \<Longrightarrow> list_all is_ascii (status_case s)"
  unfolding status_case_def by (intro ascii_capitalize ascii_lower ascii_strip)

lemma status_case_idem_ascii:
  "list_all is_ascii s \<Longrightarrow> status_case (status_case s) = status_case s"
  by (rule status_case_fixed) (rule ascii_status_case)

section \<open>Tables: cell-wise maps and cleaning\<close>

lemma map_of_zip_map2:
  "map_of (zip cols (map2 g cols r)) c = map_option (g c) (map_of (zip cols r) c)"
proof (induction cols arbitrary: r)
  case Nil
  show ?case by simp
next
  case (Cons a cols)
  show ?case by (cases r) (simp_all add: Cons.IH)
qed

lemma cell_at_absent: "c \<notin> set cols \<Longrightarrow> cell_at cols r c = Null"
proof -
  assume "c \<notin> set cols"
  then have "c \<notin> fst ` set (zip cols r)" by (auto dest: set_zip_leftD)
  then have "map_of (zip cols r) c = None" by (simp add: map_of_eq_None_iff)
  then show ?thesis by (simp add: cell_at_def)
qed

lemma map_of_zip_present:
  "length r = length cols \<Longrightarrow> c \<in> set cols \<Longrightarrow> \<exists>v. map_of (zip cols r) c = Some v"
  by (metis map_of_zip_is_Some)

lemma cell_at_map2:
  assumes "length r = length cols" and "c \<in> set cols"
  shows "cell_at cols (map2 g cols r) c = g c (cell_at cols r c)"
proof -
  from assms obtain v where "map_of (zip cols r) c = Some v"
    using map_of_zip_present by metis
  then show ?thesis by (simp add: cell_at_def map_of_zip_map2)
qed

lemma map2_map2: "map2 g cols (map2 h cols r) = map2 (\<lambda>n v. g n (h n v)) cols r"
proof (induction cols arbitrary: r)
  case Nil
  show ?case by simp
next
  case (Cons a cols)
  show ?case by (cases r) (simp_all add: Cons.IH)
qed

lemma map2_keep:
  "length r = length cols \<Longrightarrow> (\<forall>n\<in>set cols. \<forall>v. g n v = v) \<Longrightarrow> map2 g cols r = r"
proof (induction cols arbitrary: r)
  case Nil
  then show ?case by simp
next
  case (Cons a cols)
  then show ?case by (cases r) simp_all
qed

lemma columns_cellwise [simp]: "columns (cellwise g df) = columns df"
  by (simp add: cellwise_def)

lemma length_rows_cellwise [simp]: "length (rows (cellwise g df)) = length (rows df)"
  by (simp add: cellwise_def)

lemma rectangular_cellwise: "rectangular df \<Longrightarrow> rectangular (cellwise g df)"
  by (simp add: rectangular_def cellwise_def list_all_iff)

lemma cellwise_cellwise: "cellwise g (cellwise h df) = cellwise (\<lambda>n v. g n (h n v)) df"
  by (simp add: cellwise_def map2_map2)

lemma map_column_cellwise: "map_column c f df = cellwise (\<lambda>n v. if n = c then f v else v) df"
  by (simp add: map_column_def cellwise_def)

lemma cellwise_keep:
  assumes "rectangular df" and "\<forall>n\<in>set (columns df). \<forall>v. g n v = v"
  shows "cellwise g df = df"
proof -
  have "map (\<lambda>r. map2 g (columns df) r) (rows df) = map (\<lambda>r. r) (rows df)"
  proof (rule map_cong [OF refl])
    fix r assume "r \<in> set (rows df)"
    then have "length r = length (columns df)"
      using assms(1) by (simp add: rectangular_def list_all_iff)
    then show "map2 g (columns df) r = r" using assms(2) by (rule map2_keep)
  qed
  then show ?thesis by (simp add: cellwise_def)
qed

lemma cellwise_cong:
  assumes "\<forall>n\<in>set (columns df). \<forall>v. g n v = h n v"
  shows "cellwise g df = cellwise h df"
proof -
  have "\<And>r. map2 g (columns df) r = map2 h (columns df) r"
    using assms by (auto dest: set_zip_leftD)
  then show ?thesis by (simp add: cellwise_def)
qed

lemma guarded_map_column:
  assumes "rectangular df"
  shows "(if c \<in> set (columns df) then map_column c f df else df) = map_column c f df"
proof (cases "c \<in> set (columns df)")
  case True then show ?thesis by simp
next
  case False
  then have "cellwise (\<lambda>n v. if n = c then f v else v) df = df"
    using assms by (intro cellwise_keep) auto
  then show ?thesis using False by (simp add: map_column_cellwise)
qed

lemma column_values_cellwise:
  assumes "rectangular df" and "c \<in> set (columns df)"
  shows "column_values (cellwise g df) c = map (g c) (column_values df c)"
proof -
  have "\<And>r. r \<in> set (rows df) \<Longrightarrow>
          cell_at (columns df) (map2 g (columns df) r) c = g c (cell_at (columns df) r c)"
    using assms by (intro cell_at_map2) (simp_all add: rectangular_def list_all_iff)
  then show ?thesis by (simp add: column_values_def cellwise_def)
qed

lemma clean_eq_cellwise:
  assumes "rectangular df" and "''Amount(in lakhs)'' \<in> set (columns df)"
  shows "clean lib df = Inr (cellwise (clean_cell lib) df)"
proof -
  let ?f1 = "\<lambda>n v. if n = ''Amount(in lakhs)'' then clean_amount lib v else v"
  let ?f2 = "\<lambda>n v. if n = ''Status'' then clean_status lib v else v"
  let ?f3 = "\<lambda>n v. if n = ''Co-investigator'' then fillna (Str ''None'') v else v"
  let ?f4 = "\<lambda>n v. if n = ''Domain'' then fillna (Str ''Unspecified'') v else v"
  let ?f5 = "\<lambda>n v. if n = ''Faculty Name'' then fillna (Str ''Unknown'') v else v"
  let ?d1 = "cellwise ?f1 df"
  let ?d2 = "cellwise ?f2 ?d1"
  let ?d3 = "cellwise ?f3 ?d2"
  let ?d4 = "cellwise ?f4 ?d3"
  let ?d5 = "cellwise ?f5 ?d4"
  have r1: "rectangular ?d1" using assms(1) by (rule rectangular_cellwise)
  have r2: "rectangular ?d2" using r1 by (rule rectangular_cellwise)
  have r3: "rectangular ?d3" using r2 by (rule rectangular_cellwise)
  have r4: "rectangular ?d4" using r3 by (rule rectangular_cellwise)
  have e1: "map_column ''Amount(in lakhs)'' (clean_amount lib) df = ?d1"
    by (rule map_column_cellwise)
  have e2: "(if ''Status'' \<in> set (columns ?d1)
             then map_column ''Status'' (clean_status lib) ?d1 else ?d1) = ?d2"
    using guarded_map_column [OF r1] by (simp only: map_column_cellwise)
  have e3: "(if ''Co-investigator'' \<in> set (columns ?d2)
             then map_column ''Co-investigator'' (fillna (Str ''None'')) ?d2 else ?d2) = ?d3"
    using guarded_map_column [OF r2] by (simp only: map_column_cellwise)
  have e4: "(if ''Domain'' \<in> set (columns ?d3)
             then map_column ''Domain'' (fillna (Str ''Unspecified'')) ?d3 else ?d3) = ?d4"
    using guarded_map_column [OF r3] by (simp only: map_column_cellwise)
  have e5: "(if ''Faculty Name'' \<in> set (columns ?d4)
             then map_column ''Faculty Name'' (fillna (Str ''Unknown'')) ?d4 else ?d4) = ?d5"
    using guarded_map_column [OF r4] by (simp only: map_column_cellwise)
  have "clean lib df = Inr ?d5"
    unfolding clean_def Let_def e1 e2 e3 e4 e5 using assms(2) by simp
  also have "?d5 = cellwise (clean_cell lib) df"
    unfolding cellwise_cellwise
    by (rule cellwise_cong) (simp add: clean_cell_def)
  finally show ?thesis .
qed

section \<open>Concatenation and the Normalizer\<close>

lemma foldl_add_new:
  "distinct acc \<Longrightarrow>
     distinct (foldl add_new acc cs) \<and> set (foldl add_new acc cs) = set acc \<union> set cs"
proof (induction cs arbitrary: acc)
  case Nil
  then show ?case by simp
next
  case (Cons c cs)
  have "distinct (add_new acc c)" and "set (add_new acc c) = insert c (set acc)"
    using Cons.prems by (auto simp: add_new_def)
  then show ?case using Cons.IH [of "add_new acc c"] by auto
qed

lemma foldl_add_new_distinct:
  "distinct (acc @ cs) \<Longrightarrow> foldl add_new acc cs = acc @ cs"
proof (induction cs arbitrary: acc)
  case Nil
  then show ?case by simp
next
  case (Cons c cs)
  have "add_new acc c = acc @ [c]" using Cons.prems by (simp add: add_new_def)
  moreover have "distinct ((acc @ [c]) @ cs)" using Cons.prems by simp
  ultimately show ?case using Cons.IH [of "acc @ [c]"] by simp
qed

lemma distinct_union_columns: "distinct (union_columns css)"
  using foldl_add_new [of "[]"] by (simp add: union_columns_def)

lemma set_union_columns: "set (union_columns css) = (\<Union>cs\<in>set css. set cs)"
  using foldl_add_new [of "[]" "concat css"] by (simp add: union_columns_def)

lemma union_columns_single: "distinct cs \<Longrightarrow> union_columns [cs] = cs"
  using foldl_add_new_distinct [of "[]" cs] by (simp add: union_columns_def)

lemma columns_concat_frames: "columns (concat_frames dfs) = union_columns (map columns dfs)"
  by (simp add: concat_frames_def Let_def)

lemma rectangular_concat_frames: "rectangular (concat_frames dfs)"
  by (auto simp: rectangular_def concat_frames_def Let_def reindex_def list_all_iff)

lemma cell_at_reindexed:
  assumes "set bcols \<subseteq> set ucols"
  shows "cell_at ucols (map (cell_at bcols r) ucols) c = cell_at bcols r c"
proof (cases "c \<in> set ucols")
  case True
  then have "map_of (zip ucols (map (cell_at bcols r) ucols)) c = Some (cell_at bcols r c)"
    by (simp add: map_of_zip_map)
  then show ?thesis by (simp add: cell_at_def)
next
  case False
  then have "c \<notin> set bcols" using assms by auto
  then show ?thesis using False by (simp add: cell_at_absent)
qed

lemma column_values_concat_frames:
  "column_values (concat_frames dfs) c = concat (map (\<lambda>b. column_values b c) dfs)"
proof -
  let ?u = "union_columns (map columns dfs)"
  have "\<And>b. b \<in> set dfs \<Longrightarrow>
          map (\<lambda>r. cell_at ?u r c) (reindex ?u b) = column_values b c"
  proof -
    fix b assume "b \<in> set dfs"
    then have "set (columns b) \<subseteq> set ?u" by (auto simp: set_union_columns)
    then show "map (\<lambda>r. cell_at ?u r c) (reindex ?u b) = column_values b c"
      by (simp add: reindex_def column_values_def cell_at_reindexed comp_def)
  qed
  then have "map (\<lambda>b. map (\<lambda>r. cell_at ?u r c) (reindex ?u b)) dfs
               = map (\<lambda>b. column_values b c) dfs"
    by simp
  moreover have "column_values (concat_frames dfs) c
               = concat (map (\<lambda>b. map (\<lambda>r. cell_at ?u r c) (reindex ?u b)) dfs)"
    by (simp add: column_values_def concat_frames_def Let_def map_concat comp_def)
  ultimately show ?thesis by (simp only:)
qed

lemma length_rows_concat_frames:
  "length (rows (concat_frames dfs)) = sum_list (map (\<lambda>b. length (rows b)) dfs)"
  by (simp add: concat_frames_def Let_def reindex_def length_concat comp_def)

lemma map_cell_at_self:
  assumes "distinct cols" and "length r = length cols"
  shows "map (cell_at cols r) cols = r"
proof (rule nth_equalityI)
  show "length (map (cell_at cols r) cols) = length r" using assms(2) by simp
next
  fix i assume "i < length (map (cell_at cols r) cols)"
  then have i: "i < length r" using assms(2) by simp
  have "map_of (zip cols r) (cols ! i) = Some (r ! i)"
    using assms i by (intro map_of_zip_nth) simp_all
  then show "map (cell_at cols r) cols ! i = r ! i"
    using i assms(2) by (simp add: cell_at_def)
qed

lemma concat_frames_single:
  assumes "distinct (columns df)" and "rectangular df"
  shows "concat_frames [df] = df"
proof -
  have "map (\<lambda>r. map (cell_at (columns df) r) (columns df)) (rows df) = map (\<lambda>r. r) (rows df)"
    using assms by (intro map_cong [OF refl] map_cell_at_self)
      (simp_all add: rectangular_def list_all_iff)
  then show ?thesis
    using assms(1) by (simp add: concat_frames_def Let_def union_columns_single reindex_def)
qed

lemma canonical_idem: "canonical (canonical c) = canonical c"
  by (simp add: canonical_def)

lemma rename_columns_idem: "rename_columns (rename_columns df) = rename_columns df"
  by (simp add: rename_columns_def canonical_idem)

lemma clean_cell_idem:
  assumes "n = ''Status'' \<Longrightarrow>
             (case clean_cell lib n v of Str t \<Rightarrow> list_all is_ascii t | _ \<Rightarrow> True)"
  shows "clean_cell lib n (clean_cell lib n v) = clean_cell lib n v"
proof (cases "n = ''Status''")
  case True
  then have "list_all is_ascii (status_case (astype_str lib v))"
    using assms by (simp add: clean_cell_def clean_status_def)
  then have "status_case (status_case (astype_str lib v)) = status_case (astype_str lib v)"
    by (rule status_case_fixed)
  then show ?thesis using True by (simp add: clean_cell_def clean_status_def astype_str_def)
next
  case False
  then show ?thesis
    by (cases v)
       (simp_all add: clean_cell_def clean_amount_def fillna_def to_numeric_def
          split: option.splits)
qed

lemma cellwise_idem:
  assumes "\<forall>r\<in>set (rows u). \<forall>(n, v)\<in>set (zip (columns u) r). g n (g n v) = g n v"
  shows "cellwise g (cellwise g u) = cellwise g u"
proof -
  have "\<And>r. r \<in> set (rows u) \<Longrightarrow>
          map2 (\<lambda>n v. g n (g n v)) (columns u) r = map2 g (columns u) r"
    using assms by (intro map_cong [OF refl]) auto
  then show ?thesis by (simp add: cellwise_cellwise) (simp add: cellwise_def)
qed

lemma cell_in_cleaned_column:
  assumes "distinct (columns u)" and "rectangular u" and "r \<in> set (rows u)"
    and "(c, v) \<in> set (zip (columns u) r)"
  shows "g c v \<in> set (column_values (cellwise g u) c)"
proof -
  have len: "length r = length (columns u)"
    using assms(2,3) by (simp add: rectangular_def list_all_iff)
  then have "distinct (map fst (zip (columns u) r))" using assms(1) by simp
  then have "map_of (zip (columns u) r) c = Some v" using assms(4) by (rule map_of_is_SomeI)
  then have v: "cell_at (columns u) r c = v" by (simp add: cell_at_def)
  have c: "c \<in> set (columns u)" using assms(4) by (rule set_zip_leftD)
  have "v \<in> set (column_values u c)"
    using assms(3) v by (auto simp: column_values_def)
  then show ?thesis by (simp add: column_values_cellwise [OF assms(2) c])
qed

lemma clean_fixpoint:
  assumes "rectangular u" and "distinct (columns u)"
    and "''Amount(in lakhs)'' \<in> set (columns u)"
    and "ascii_status (cellwise (clean_cell lib) u)"
  shows "clean lib (cellwise (clean_cell lib) u) = Inr (cellwise (clean_cell lib) u)"
proof -
  have "clean lib (cellwise (clean_cell lib) u)
          = Inr (cellwise (clean_cell lib) (cellwise (clean_cell lib) u))"
    using assms(1,3) by (intro clean_eq_cellwise rectangular_cellwise) simp_all
  moreover have "cellwise (clean_cell lib) (cellwise (clean_cell lib) u)
                   = cellwise (clean_cell lib) u"
  proof (rule cellwise_idem, intro ballI, clarify)
    fix r n v assume r: "r \<in> set (rows u)" and z: "(n, v) \<in> set (zip (columns u) r)"
    show "clean_cell lib n (clean_cell lib n v) = clean_cell lib n v"
    proof (rule clean_cell_idem)
      assume "n = ''Status''"
      then have "clean_cell lib n v
                   \<in> set (column_values (cellwise (clean_cell lib) u) ''Status'')"
        using cell_in_cleaned_column [OF assms(2,1) r z] by simp
      then show "case clean_cell lib n v of Str t \<Rightarrow> list_all is_ascii t | _ \<Rightarrow> True"
        using assms(4) by (simp add: ascii_status_def list_all_iff)
    qed
  qed
  ultimately show ?thesis by simp
qed

lemma clean_Inr:
  assumes "clean lib u = Inr df" and "rectangular u"
  shows "''Amount(in lakhs)'' \<in> set (columns u) \<and> df = cellwise (clean_cell lib) u"
proof -
  have a: "''Amount(in lakhs)'' \<in> set (columns u)"
    using assms(1) by (auto simp: clean_def split: if_splits)
  then show ?thesis using assms clean_eq_cellwise [OF assms(2) a, of lib] by simp
qed

lemma normalizer_idem:
  assumes "normalizer lib bs = Inr df" and "ascii_status df"
  shows "normalizer lib [df] = Inr df"
proof -
  let ?u = "concat_frames (map rename_columns bs)"
  have ru: "rectangular ?u" by (rule rectangular_concat_frames)
  have du: "distinct (columns ?u)"
    by (simp add: columns_concat_frames distinct_union_columns)
  from assms(1) have c: "clean lib ?u = Inr df" by (simp add: normalizer_def)
  from clean_Inr [OF c ru]
  have a: "''Amount(in lakhs)'' \<in> set (columns ?u)" and df: "df = cellwise (clean_cell lib) ?u"
    by simp_all
  have d: "distinct (columns df)"
    by (simp add: df columns_concat_frames distinct_union_columns)
  have r: "rectangular df" unfolding df using ru by (rule rectangular_cellwise)
  have "\<forall>c\<in>set (columns df). canonical c = c"
    by (auto simp: df columns_concat_frames set_union_columns rename_columns_def canonical_idem)
  then have "map canonical (columns df) = columns df" by (simp add: map_idI)
  then have "rename_columns df = df" by (simp add: rename_columns_def)
  then have "normalizer lib [df] = clean lib (concat_frames [df])"
    by (simp add: normalizer_def)
  also have "\<dots> = clean lib df" using d r by (simp add: concat_frames_single)
  also have "\<dots> = Inr df"
    using assms(2) unfolding df by (intro clean_fixpoint ru du a)
  finally show ?thesis .
qed

section \<open>The loop over the sources and the department tag\<close>

lemma fst_load_sources:
  "fst (load_sources fs srcs) =
     List.map_filter (\<lambda>src. map_option (tag_batch (fst src)) (fst (read_source fs src))) srcs"
proof (induction srcs)
  case Nil
  show ?case by (simp add: List.map_filter_simps)
next
  case (Cons src srcs)
  then show ?case
    by (cases "read_source fs src"; cases "fst (read_source fs src)")
       (auto simp: List.map_filter_simps split: prod.splits option.splits)
qed

lemma columns_tag_batch:
  "columns (tag_batch dept t) =
     map canonical (if ''Department'' \<in> set (columns t) then columns t
                    else columns t @ [''Department''])"
  by (simp add: tag_batch_def rename_columns_def set_column_def map_column_def)

lemma Department_in_tag_batch: "''Department'' \<in> set (columns (tag_batch dept t))"
  by (auto simp: columns_tag_batch canonical_def)

lemma length_rows_tag_batch: "length (rows (tag_batch dept t)) = length (rows t)"
  by (simp add: tag_batch_def rename_columns_def set_column_def map_column_def)

lemma map_of_zip_canonical:
  "canonical c = c \<Longrightarrow> (\<forall>n\<in>set cols. canonical n = c \<longrightarrow> n = c) \<Longrightarrow>
     map_of (zip (map canonical cols) r) c = map_of (zip cols r) c"
proof (induction cols arbitrary: r)
  case Nil
  show ?case by simp
next
  case (Cons a cols)
  then show ?case by (cases r) auto
qed

lemma canonical_Department: "canonical n = ''Department'' \<longleftrightarrow> n = ''Department''"
  by (simp add: canonical_def)

lemma map_of_zip_append_new:
  "length r = length cols \<Longrightarrow> d \<notin> set cols \<Longrightarrow>
     map_of (zip (cols @ [d]) (r @ [v])) d = Some v"
proof (induction cols arbitrary: r)
  case Nil
  then show ?case by simp
next
  case (Cons a cols)
  then show ?case by (cases r) auto
qed

lemma column_values_tag_batch:
  assumes "rectangular t"
  shows "column_values (tag_batch dept t) ''Department'' = replicate (length (rows t)) (Str dept)"
proof -
  let ?D = "''Department''"
  let ?s = "set_column ?D (Str dept) t"
  have rn: "\<And>r. cell_at (columns (rename_columns ?s)) r ?D = cell_at (columns ?s) r ?D"
    by (simp add: cell_at_def rename_columns_def map_of_zip_canonical canonical_Department)
  have inner: "\<And>r. r \<in> set (rows ?s) \<Longrightarrow> cell_at (columns ?s) r ?D = Str dept"
  proof (cases "?D \<in> set (columns t)")
    case True
    fix r assume "r \<in> set (rows ?s)"
    then obtain r0 where r0: "r0 \<in> set (rows t)"
      and r: "r = map2 (\<lambda>n v. if n = ?D then Str dept else v) (columns t) r0"
      using True by (auto simp: set_column_def map_column_def)
    have "length r0 = length (columns t)"
      using assms r0 by (simp add: rectangular_def list_all_iff)
    then have "cell_at (columns t) r ?D = Str dept"
      unfolding r using True by (simp add: cell_at_map2)
    then show "cell_at (columns ?s) r ?D = Str dept"
      using True by (simp add: set_column_def map_column_def)
  next
    case False
    fix r assume "r \<in> set (rows ?s)"
    then obtain r0 where r0: "r0 \<in> set (rows t)" and r: "r = r0 @ [Str dept]"
      using False by (auto simp: set_column_def)
    have len: "length r0 = length (columns t)"
      using assms r0 by (simp add: rectangular_def list_all_iff)
    have "map_of (zip (columns t @ [?D]) (r0 @ [Str dept])) ?D = Some (Str dept)"
      using len False by (rule map_of_zip_append_new)
    then show "cell_at (columns ?s) r ?D = Str dept"
      using False by (simp add: set_column_def cell_at_def r)
  qed
  have "\<forall>r\<in>set (rows (tag_batch dept t)).
               cell_at (columns (tag_batch dept t)) r ?D = Str dept"
  proof
    fix r assume "r \<in> set (rows (tag_batch dept t))"
    then have "r \<in> set (rows ?s)" by (simp add: tag_batch_def rename_columns_def)
    then have "cell_at (columns ?s) r ?D = Str dept" by (rule inner)
    then have "cell_at (columns (rename_columns ?s)) r ?D = Str dept" by (simp only: rn)
    then show "cell_at (columns (tag_batch dept t)) r ?D = Str dept"
      by (simp only: tag_batch_def)
  qed
  then have "map (\<lambda>r. cell_at (columns (tag_batch dept t)) r ?D) (rows (tag_batch dept t))
               = map (\<lambda>r. Str dept) (rows (tag_batch dept t))"
    by simp
  then show ?thesis
    by (simp add: column_values_def map_replicate_const length_rows_tag_batch)
qed

section \<open>The loader's result as a cell-wise image of the concatenated table\<close>

lemma load_Inr_empty:
  assumes "snd (load_and_clean_data lib fs) = Inr df"
    and "fst (load_sources fs files_to_check) = []"
  shows "df = empty_frame"
  using assms by (cases "load_sources fs files_to_check")
    (simp add: load_and_clean_data_def)

lemma load_eq_clean:
  assumes "fst (load_sources fs files_to_check) \<noteq> []"
  shows "snd (load_and_clean_data lib fs) = clean lib (unified fs)"
  using assms by (cases "load_sources fs files_to_check")
    (simp add: load_and_clean_data_def unified_def)

lemma rectangular_unified: "rectangular (unified fs)"
  by (simp add: unified_def rectangular_concat_frames)

lemma load_Inr:
  assumes "snd (load_and_clean_data lib fs) = Inr df"
    and "fst (load_sources fs files_to_check) \<noteq> []"
  shows "''Amount(in lakhs)'' \<in> set (columns (unified fs)) \<and>
         df = cellwise (clean_cell lib) (unified fs)"
  using assms clean_Inr [OF _ rectangular_unified] by (simp add: load_eq_clean)

lemma unified_empty:
  "fst (load_sources fs files_to_check) = [] \<Longrightarrow> unified fs = empty_frame"
  by (simp add: unified_def concat_frames_def union_columns_def empty_frame_def)

lemma column_values_empty_frame: "column_values empty_frame c = []"
  by (simp add: column_values_def empty_frame_def)

lemma load_column_values:
  assumes "snd (load_and_clean_data lib fs) = Inr df" and "c \<in> set (columns df)"
  shows "column_values df c = map (clean_cell lib c) (column_values (unified fs) c)"
proof (cases "fst (load_sources fs files_to_check) = []")
  case True
  then show ?thesis using assms load_Inr_empty [OF assms(1)] by (simp add: empty_frame_def)
next
  case False
  from load_Inr [OF assms(1) False]
  have df: "df = cellwise (clean_cell lib) (unified fs)" by simp
  then have "c \<in> set (columns (unified fs))" using assms(2) by simp
  then show ?thesis unfolding df using rectangular_unified
    by (intro column_values_cellwise) simp_all
qed

lemma load_columns:
  assumes "snd (load_and_clean_data lib fs) = Inr df"
  shows "columns df = columns (unified fs)"
proof (cases "fst (load_sources fs files_to_check) = []")
  case True
  then show ?thesis using load_Inr_empty [OF assms] by (simp add: unified_empty)
next
  case False
  from load_Inr [OF assms False] show ?thesis by simp
qed

lemma load_length_rows:
  assumes "snd (load_and_clean_data lib fs) = Inr df"
  shows "length (rows df) = length (rows (unified fs))"
proof (cases "fst (load_sources fs files_to_check) = []")
  case True
  then show ?thesis using load_Inr_empty [OF assms] by (simp add: unified_empty)
next
  case False
  from load_Inr [OF assms False] show ?thesis by simp
qed

lemma load_amount_present:
  assumes "snd (load_and_clean_data lib fs) = Inr df" and "\<not> df_empty df"
  shows "''Amount(in lakhs)'' \<in> set (columns df)"
proof -
  have "fst (load_sources fs files_to_check) \<noteq> []"
    using assms load_Inr_empty [OF assms(1)] by (auto simp: df_empty_def empty_frame_def)
  from load_Inr [OF assms(1) this] show ?thesis by simp
qed

lemma length_column_values [simp]: "length (column_values df c) = length (rows df)"
  by (simp add: column_values_def)

lemma clean_amount_cases:
  "clean_amount lib v = (case to_numeric lib v of Num x \<Rightarrow> Num x | _ \<Rightarrow> Num 0)"
  by (cases v) (simp_all add: clean_amount_def to_numeric_def fillna_def split: option.splits)

lemma to_numeric_not_text: "to_numeric lib v \<noteq> Str s"
  by (cases v) (simp_all add: to_numeric_def split: option.splits)

lemma status_case_nan: "status_case ''nan'' = ''Nan''"
  by code_simp

lemma clean_status_Null: "clean_status lib Null = Str ''Nan''"
  by (simp add: clean_status_def astype_str_def status_case_nan)

lemma fillna_if: "fillna d v = (if v = Null then d else v)"
  by (cases v) (simp_all add: fillna_def)

lemma read_source_wf:
  assumes "wf_files fs" and "src \<in> set files_to_check" and "fst (read_source fs src) = Some t"
  shows "wf_table t"
proof -
  obtain dept x c where src: "src = (dept, x, c)" by (cases src)
  have w: "wf_result (read_excel fs x)" "wf_result (read_csv fs c Utf8)"
    "wf_result (read_csv fs c Latin1)"
    using assms(1,2) by (auto simp: wf_files_def list_all_iff src)
  show ?thesis
    using assms(3) w
    by (auto simp: src read_source_def try_excel_def try_csv_def wf_result_def
        split: if_splits read_result.splits prod.splits option.splits)
qed

lemma concat_map_map_filter:
  "concat (map g (List.map_filter f xs))
     = concat (map (\<lambda>x. case f x of None \<Rightarrow> [] | Some y \<Rightarrow> g y) xs)"
  by (induction xs) (simp_all add: List.map_filter_simps split: option.splits)

lemma unified_Department:
  assumes "wf_files fs"
  shows "column_values (unified fs) ''Department'' =
           concat (map (\<lambda>src. case fst (read_source fs src) of
                                 None \<Rightarrow> []
                               | Some t \<Rightarrow> replicate (length (rows t)) (Str (fst src)))
                       files_to_check)"
proof -
  let ?f = "\<lambda>src. map_option (tag_batch (fst src)) (fst (read_source fs src))"
  have "column_values (unified fs) ''Department'' =
          concat (map (\<lambda>src. case ?f src of None \<Rightarrow> []
                               | Some b \<Rightarrow> column_values b ''Department'') files_to_check)"
    by (simp add: unified_def column_values_concat_frames fst_load_sources concat_map_map_filter)
  also have "map (\<lambda>src. case ?f src of None \<Rightarrow> []
                               | Some b \<Rightarrow> column_values b ''Department'') files_to_check
           = map (\<lambda>src. case fst (read_source fs src) of
                                 None \<Rightarrow> []
                               | Some t \<Rightarrow> replicate (length (rows t)) (Str (fst src)))
                       files_to_check"
  proof (rule map_cong [OF refl])
    fix src assume m: "src \<in> set files_to_check"
    show "(case ?f src of None \<Rightarrow> [] | Some b \<Rightarrow> column_values b ''Department'')
        = (case fst (read_source fs src) of
             None \<Rightarrow> [] | Some t \<Rightarrow> replicate (length (rows t)) (Str (fst src)))"
    proof (cases "fst (read_source fs src)")
      case None
      then show ?thesis by simp
    next
      case (Some t)
      then have "rectangular t" using read_source_wf [OF assms m] by (simp add: wf_table_def)
      then show ?thesis using Some by (simp add: column_values_tag_batch)
    qed
  qed
  finally show ?thesis .
qed

lemma in_set_map_filter:
  "y \<in> set (List.map_filter f xs) \<longleftrightarrow> (\<exists>x\<in>set xs. f x = Some y)"
  by (induction xs) (auto split: option.splits)

lemma clean_cell_Department: "clean_cell lib ''Department'' = (\<lambda>v. v)"
  by (rule ext) (simp add: clean_cell_def)

lemma Department_in_unified:
  assumes "fst (load_sources fs files_to_check) \<noteq> []"
  shows "''Department'' \<in> set (columns (unified fs))"
proof -
  from assms obtain b where b: "b \<in> set (fst (load_sources fs files_to_check))"
    by (cases "fst (load_sources fs files_to_check)") auto
  then obtain src t where "b = tag_batch (fst src) t"
    by (auto simp: fst_load_sources in_set_map_filter)
  then have "''Department'' \<in> set (columns b)" by (simp add: Department_in_tag_batch)
  then show ?thesis using b
    by (auto simp: unified_def columns_concat_frames set_union_columns)
qed

lemma load_Department_present:
  assumes "snd (load_and_clean_data lib fs) = Inr df" and "\<not> df_empty df"
  shows "''Department'' \<in> set (columns df)"
proof -
  have ne: "fst (load_sources fs files_to_check) \<noteq> []"
    using assms load_Inr_empty [OF assms(1)] by (auto simp: df_empty_def empty_frame_def)
  then show ?thesis using load_columns [OF assms(1)] Department_in_unified by simp
qed

lemma load_Department_values:
  assumes "snd (load_and_clean_data lib fs) = Inr df"
  shows "column_values df ''Department'' = column_values (unified fs) ''Department''"
proof (cases "fst (load_sources fs files_to_check) = []")
  case True
  then show ?thesis using load_Inr_empty [OF assms] by (simp add: unified_empty)
next
  case False
  then have "''Department'' \<in> set (columns df)"
    using load_columns [OF assms] Department_in_unified by simp
  from load_column_values [OF assms this] show ?thesis by (simp add: clean_cell_Department)
qed

lemma replicate_Str_not_Null:
  "Null \<notin> set (concat (map (\<lambda>src. case f src of None \<Rightarrow> []
                                   | Some t \<Rightarrow> replicate (k t) (Str (g src))) xs))"
  by (induction xs) (simp_all split: option.splits)

lemma map_fill_not_Null: "Null \<notin> set (map (\<lambda>v. if v = Null then Str s else v) vs)"
  by auto

lemma load_filled_column:
  assumes "snd (load_and_clean_data lib fs) = Inr df"
    and "clean_cell lib c = fillna (Str s)"
  shows "c \<in> set (columns df) \<longrightarrow>
           column_values df c =
             map (\<lambda>v. if v = Null then Str s else v) (column_values (unified fs) c)
           \<and> Null \<notin> set (column_values df c)"
proof
  assume m: "c \<in> set (columns df)"
  have e: "column_values df c =
             map (\<lambda>v. if v = Null then Str s else v) (column_values (unified fs) c)"
    using load_column_values [OF assms(1) m] by (simp add: assms(2) fillna_if)
  have "Null \<notin> set (column_values df c)" unfolding e by (rule map_fill_not_Null)
  with e show "column_values df c =
             map (\<lambda>v. if v = Null then Str s else v) (column_values (unified fs) c)
           \<and> Null \<notin> set (column_values df c)" by (rule conjI)
qed

section \<open>Filtering, summary numbers and failing sources\<close>

lemma rename_tag_batch: "rename_columns (tag_batch dept t) = tag_batch dept t"
  by (simp add: tag_batch_def rename_columns_idem)

lemma rename_loaded:
  "map rename_columns (fst (load_sources fs srcs)) = fst (load_sources fs srcs)"
proof -
  have "\<forall>b\<in>set (fst (load_sources fs srcs)). rename_columns b = b"
    by (auto simp: fst_load_sources in_set_map_filter rename_tag_batch)
  then show ?thesis by (simp add: map_idI)
qed

lemma load_is_normalizer:
  assumes "fst (load_sources fs files_to_check) \<noteq> []"
  shows "snd (load_and_clean_data lib fs) = normalizer lib (fst (load_sources fs files_to_check))"
  using load_eq_clean [OF assms] by (simp add: normalizer_def rename_loaded unified_def)

lemma load_nonempty_sources:
  assumes "snd (load_and_clean_data lib fs) = Inr df" and "\<not> df_empty df"
  shows "fst (load_sources fs files_to_check) \<noteq> []"
  using assms load_Inr_empty [OF assms(1)] by (auto simp: df_empty_def empty_frame_def)

lemma columns_select_eq: "select_eq c v df = Inr d \<Longrightarrow> columns d = columns df"
  by (auto simp: select_eq_def split: if_splits)

lemma apply_filters_eq:
  assumes "''Department'' \<in> set (columns df)"
  shows "apply_filters df d s =
           Inr (df\<lparr>rows := filter (\<lambda>r. (d = ''All'' \<or> cell_at (columns df) r ''Department'' = Str d) \<and>
                                       (s = ''All'' \<or> ''Status'' \<notin> set (columns df) \<or>
                                        cell_at (columns df) r ''Status'' = Str s))
                                 (rows df)\<rparr>)"
  using assms by (auto simp: apply_filters_def select_eq_def intro: filter_cong)


lemma clean_amount_is_Num: "\<exists>x. clean_amount lib v = Num x"
  by (cases "to_numeric lib v") (simp_all add: clean_amount_cases)

lemma load_amount_cells:
  assumes "snd (load_and_clean_data lib fs) = Inr df" and "\<not> df_empty df"
    and "r \<in> set (rows df)"
  shows "\<exists>x. cell_at (columns df) r ''Amount(in lakhs)'' = Num x"
proof -
  have a: "''Amount(in lakhs)'' \<in> set (columns df)" using assms(1,2) by (rule load_amount_present)
  have "cell_at (columns df) r ''Amount(in lakhs)'' \<in> set (column_values df ''Amount(in lakhs)'')"
    using assms(3) by (auto simp: column_values_def)
  then have "cell_at (columns df) r ''Amount(in lakhs)''
      \<in> set (map (clean_amount lib) (column_values (unified fs) ''Amount(in lakhs)''))"
    using load_column_values [OF assms(1) a] by (simp add: clean_cell_def)
  then show ?thesis using clean_amount_is_Num [of lib] by auto
qed

lemma series_sum_numbers:
  assumes "\<forall>v\<in>set col. \<exists>x. v = Num x"
  shows "series_sum lib col = Inr (sum_values lib (List.map_filter num_of col))"
proof -
  have "\<not> list_ex is_text col" using assms by (auto simp: list_ex_iff is_text_def)
  then show ?thesis by (simp add: series_sum_def)
qed


lemma snd_load_by_batches:
  "snd (load_and_clean_data lib fs) =
     (if fst (load_sources fs files_to_check) = [] then Inr empty_frame
      else clean lib (concat_frames (fst (load_sources fs files_to_check))))"
  by (cases "load_sources fs files_to_check") (simp add: load_and_clean_data_def)

lemma source_fails_read:
  "source_fails fs src \<Longrightarrow> fst (read_source fs src) = None"
  by (cases src)
     (auto simp: source_fails_def read_source_def try_excel_def try_csv_def is_table_def
        split: read_result.splits)

lemma load_sources_all_fail:
  "\<forall>src\<in>set srcs. source_fails fs src \<Longrightarrow> fst (load_sources fs srcs) = []"
  by (simp add: fst_load_sources map_filter_def source_fails_read)

lemma error_event_when_unavailable:
  "fst (read_source fs src) = None \<Longrightarrow> src \<in> set srcs \<Longrightarrow>
     ErrorNoData (fst src) \<in> set (snd (load_sources fs srcs))"
proof (induction srcs)
  case Nil
  then show ?case by simp
next
  case (Cons a srcs)
  then show ?case
    by (cases "read_source fs a"; cases "fst (read_source fs a)"; cases "load_sources fs srcs")
       auto
qed

lemma read_source_after_excel:
  assumes "fst (try_excel fs xlsx) = None"
  shows "read_source fs (dept, xlsx, csv) =
           (fst (try_csv fs dept csv), snd (try_excel fs xlsx) @ snd (try_csv fs dept csv))"
  using assms by (cases "try_excel fs xlsx"; cases "try_csv fs dept csv")
    (simp add: read_source_def)

lemma loaded_batch_member:
  "src \<in> set srcs \<Longrightarrow> fst (read_source fs src) = Some t \<Longrightarrow>
     tag_batch (fst src) t \<in> set (fst (load_sources fs srcs))"
  by (auto simp: fst_load_sources in_set_map_filter)


lemma fst_read_source:
  "fst (read_source fs (dept, xlsx, csv)) =
     (case fst (try_excel fs xlsx) of Some t \<Rightarrow> Some t | None \<Rightarrow> fst (try_csv fs dept csv))"
  by (cases "try_excel fs xlsx"; cases "fst (try_excel fs xlsx)"; cases "try_csv fs dept csv")
     (simp_all add: read_source_def)

lemma try_excel_failed:
  "path_exists fs xlsx \<Longrightarrow> \<not> is_table (read_excel fs xlsx) \<Longrightarrow>
     try_excel fs xlsx = (None, [ReadExcel xlsx])"
  by (cases "read_excel fs xlsx") (simp_all add: try_excel_def is_table_def)

lemma csv_names_differ:
  "(d1, x1, c1) \<in> set files_to_check \<Longrightarrow> (d2, x2, c2) \<in> set files_to_check \<Longrightarrow> c2 \<noteq> x1"
  by (auto simp: files_to_check_def)

lemma read_source_without_spreadsheet:
  assumes "path_exists fs xlsx" and "\<not> is_table (read_excel fs xlsx)" and "c' \<noteq> xlsx"
  shows "fst (read_source (fs\<lparr>path_exists := (path_exists fs)(xlsx := False)\<rparr>) (d', x', c'))
           = fst (read_source fs (d', x', c'))"
proof -
  let ?fs = "fs\<lparr>path_exists := (path_exists fs)(xlsx := False)\<rparr>"
  have "fst (try_excel ?fs x') = fst (try_excel fs x')"
  proof (cases "x' = xlsx")
    case True
    then show ?thesis using try_excel_failed [OF assms(1,2)] by (simp add: try_excel_def)
  next
    case False
    then show ?thesis by (simp add: try_excel_def)
  qed
  moreover have "try_csv ?fs d' c' = try_csv fs d' c'"
    using assms(3) by (simp add: try_csv_def split: read_result.splits)
  ultimately show ?thesis by (simp only: fst_read_source)
qed

section \<open>The loader and a missing amount column\<close>

text \<open>
  C1 (every exception stays inside \<^verbatim>\<open>load_and_clean_data\<close>, also when an expected
  column is missing). With one readable spreadsheet that has no
  \<^verbatim>\<open>Amount(in lakhs)\<close> column, the read succeeds, the batch is tagged and
  concatenated, and line 57 raises \<^verbatim>\<open>KeyError\<close>, which nothing catches: the function
  returns no table.
\<close>

theorem load_and_clean_data_KeyError:
  "load_and_clean_data example_lib titles_only_files =
     ([ReadExcel ''CSEDATA.xlsx'', ErrorNoData ''ECE''], Inl (KeyError ''Amount(in lakhs)''))"
  by code_simp

section \<open>The amount column\<close>

text \<open>
  C2 (after normalization every amount is a number, and what does not parse, a missing
  value included, becomes 0). For every row of the table the loader returns, the cell
  under \<^verbatim>\<open>Amount(in lakhs)\<close> is a number \<open>x\<close>; where \<^verbatim>\<open>to_numeric\<close> makes no number of the
  cell the concatenated table has there, \<open>x\<close> is 0, and where it makes the number \<open>y\<close>,
  \<open>x\<close> is \<open>y\<close>.
\<close>

theorem amount_always_a_number:
  assumes "snd (load_and_clean_data lib fs) = Inr df"
  shows "\<forall>i<length (rows df).
           \<exists>x. column_values df ''Amount(in lakhs)'' ! i = Num x \<and>
               (to_numeric lib (column_values (unified fs) ''Amount(in lakhs)'' ! i) = Null
                  \<longrightarrow> x = 0) \<and>
               (\<forall>y. to_numeric lib (column_values (unified fs) ''Amount(in lakhs)'' ! i) = Num y
                  \<longrightarrow> x = y)"
proof (intro allI impI)
  fix i assume i: "i < length (rows df)"
  let ?A = "''Amount(in lakhs)''"
  have "rows df \<noteq> []" using i by auto
  moreover have "columns df \<noteq> []"
  proof
    assume "columns df = []"
    show False
    proof (cases "fst (load_sources fs files_to_check) = []")
      case True
      then show False using load_Inr_empty [OF assms] i by (simp add: empty_frame_def)
    next
      case False
      from load_Inr [OF assms False] \<open>columns df = []\<close> show False by simp
    qed
  qed
  ultimately have "\<not> df_empty df" by (simp add: df_empty_def)
  then have a: "?A \<in> set (columns df)" using assms by (intro load_amount_present)
  have i': "i < length (column_values (unified fs) ?A)"
    using i load_length_rows [OF assms] by simp
  have "column_values df ?A ! i = clean_amount lib (column_values (unified fs) ?A ! i)"
    using load_column_values [OF assms a] i' by (simp add: clean_cell_def)
  then show "\<exists>x. column_values df ?A ! i = Num x \<and>
               (to_numeric lib (column_values (unified fs) ?A ! i) = Null \<longrightarrow> x = 0) \<and>
               (\<forall>y. to_numeric lib (column_values (unified fs) ?A ! i) = Num y \<longrightarrow> x = y)"
    using to_numeric_not_text [of lib "column_values (unified fs) ?A ! i"]
    by (cases "to_numeric lib (column_values (unified fs) ?A ! i)")
       (simp_all add: clean_amount_cases)
qed

theorem amount_always_a_number_witness:
  "snd (load_and_clean_data example_lib scenario_files) =
     Inr \<lparr>columns = [''Status'', ''Amount(in lakhs)'', ''Department''],
          rows = [[Str ''Ongoing'', Num 10, Str ''CSE''], [Str ''Completed'', Num 0, Str ''ECE'']]\<rparr>
   \<and> to_numeric example_lib (column_values (unified scenario_files) ''Amount(in lakhs)'' ! 1) = Null
   \<and> (\<exists>x. column_values
             \<lparr>columns = [''Status'', ''Amount(in lakhs)'', ''Department''],
              rows = [[Str ''Ongoing'', Num 10, Str ''CSE''],
                      [Str ''Completed'', Num 0, Str ''ECE'']]\<rparr> ''Amount(in lakhs)'' ! 1 = Num x
          \<and> x = (0::real))"
proof -
  let ?df = "\<lparr>columns = [''Status'', ''Amount(in lakhs)'', ''Department''],
          rows = [[Str ''Ongoing'', Num (10::real), Str ''CSE''], [Str ''Completed'', Num 0, Str ''ECE'']]\<rparr>"
  have h: "snd (load_and_clean_data example_lib scenario_files) = Inr ?df"
    by code_simp
  have n: "to_numeric example_lib (column_values (unified scenario_files) ''Amount(in lakhs)'' ! 1) = Null"
    by code_simp
  have "1 < length (rows ?df)" by simp
  with amount_always_a_number [OF h] n h show ?thesis by blast
qed

section \<open>The status column and missing values\<close>

text \<open>
  C10 (a missing status becomes the text \<^verbatim>\<open>Nan\<close>). When the table the loader returns
  has a \<^verbatim>\<open>Status\<close> column, no cell of it is missing, and every row whose status is
  missing in the concatenated table (missing in the file, or from a file without that
  column) has the status \<^verbatim>\<open>Nan\<close>: \<^verbatim>\<open>astype(str)\<close> turns the missing marker into the
  text \<^verbatim>\<open>nan\<close> before the case chain runs.
\<close>

theorem missing_status_becomes_Nan:
  assumes "snd (load_and_clean_data lib fs) = Inr df" and "''Status'' \<in> set (columns df)"
  shows "\<forall>i<length (rows df).
           column_values df ''Status'' ! i \<noteq> Null \<and>
           (column_values (unified fs) ''Status'' ! i = Null
              \<longrightarrow> column_values df ''Status'' ! i = Str ''Nan'')"
proof (intro allI impI)
  fix i assume "i < length (rows df)"
  then have i: "i < length (column_values (unified fs) ''Status'')"
    using load_length_rows [OF assms(1)] by simp
  have "column_values df ''Status'' ! i
          = clean_status lib (column_values (unified fs) ''Status'' ! i)"
    using load_column_values [OF assms] i by (simp add: clean_cell_def)
  then show "column_values df ''Status'' ! i \<noteq> Null \<and>
           (column_values (unified fs) ''Status'' ! i = Null
              \<longrightarrow> column_values df ''Status'' ! i = Str ''Nan'')"
    by (auto simp: clean_status_Null) (simp add: clean_status_def)
qed

theorem missing_status_becomes_Nan_witness:
  "snd (load_and_clean_data example_lib gaps_files) = Inr gaps_result
   \<and> ''Status'' \<in> set (columns gaps_result)
   \<and> column_values (unified gaps_files) ''Status'' = [Null, Null]
   \<and> column_values gaps_result ''Status'' ! 0 = Str ''Nan''
   \<and> column_values gaps_result ''Status'' ! 1 = Str ''Nan''"
proof -
  have h: "snd (load_and_clean_data example_lib gaps_files) = Inr gaps_result" by code_simp
  have s: "''Status'' \<in> set (columns gaps_result)" by (simp add: gaps_result_def)
  have u: "column_values (unified gaps_files) ''Status'' = [Null, Null]" by code_simp
  have n: "length (rows gaps_result) = 2" by (simp add: gaps_result_def)
  note T = missing_status_becomes_Nan [OF h s]
  have a: "column_values gaps_result ''Status'' ! 0 = Str ''Nan''"
    using T [rule_format, of 0] by (simp add: n u)
  have b: "column_values gaps_result ''Status'' ! 1 = Str ''Nan''"
    using T [rule_format, of 1] by (simp add: n u)
  from h s u a b show ?thesis by (intro conjI)
qed

section \<open>The department tag and the sentinels\<close>

text \<open>
  C9 (every row carries its source's tag, and the three text columns have no missing
  entry). For well-formed files, the \<^verbatim>\<open>Department\<close> column of the table the loader
  returns is, source by source in the order of \<^verbatim>\<open>files_to_check\<close>, the source's tag
  repeated once per row read from it, so it is never missing. Each of
  \<^verbatim>\<open>Co-investigator\<close>, \<^verbatim>\<open>Domain\<close> and \<^verbatim>\<open>Faculty Name\<close> that is a column of the result
  equals the concatenated column with \<^verbatim>\<open>None\<close>, \<^verbatim>\<open>Unspecified\<close> and \<^verbatim>\<open>Unknown\<close>
  in place of the missing entries, and holds no missing entry.
\<close>

theorem department_tag_and_sentinels:
  assumes "wf_files fs" and "snd (load_and_clean_data lib fs) = Inr df"
  shows "column_values df ''Department'' =
           concat (map (\<lambda>src. case fst (read_source fs src) of
                                 None \<Rightarrow> []
                               | Some t \<Rightarrow> replicate (length (rows t)) (Str (fst src)))
                       files_to_check)
       \<and> Null \<notin> set (column_values df ''Department'')
       \<and> (''Co-investigator'' \<in> set (columns df) \<longrightarrow>
            column_values df ''Co-investigator'' =
              map (\<lambda>v. if v = Null then Str ''None'' else v)
                  (column_values (unified fs) ''Co-investigator'')
            \<and> Null \<notin> set (column_values df ''Co-investigator''))
       \<and> (''Domain'' \<in> set (columns df) \<longrightarrow>
            column_values df ''Domain'' =
              map (\<lambda>v. if v = Null then Str ''Unspecified'' else v)
                  (column_values (unified fs) ''Domain'')
            \<and> Null \<notin> set (column_values df ''Domain''))
       \<and> (''Faculty Name'' \<in> set (columns df) \<longrightarrow>
            column_values df ''Faculty Name'' =
              map (\<lambda>v. if v = Null then Str ''Unknown'' else v)
                  (column_values (unified fs) ''Faculty Name'')
            \<and> Null \<notin> set (column_values df ''Faculty Name''))"
proof -
  have d: "column_values df ''Department'' =
           concat (map (\<lambda>src. case fst (read_source fs src) of
                                 None \<Rightarrow> []
                               | Some t \<Rightarrow> replicate (length (rows t)) (Str (fst src)))
                       files_to_check)"
    using load_Department_values [OF assms(2)] unified_Department [OF assms(1)] by simp
  have dn: "Null \<notin> set (column_values df ''Department'')"
    unfolding d by (rule replicate_Str_not_Null)
  have co: "clean_cell lib ''Co-investigator'' = fillna (Str ''None'')"
    by (rule ext) (simp add: clean_cell_def)
  have dm: "clean_cell lib ''Domain'' = fillna (Str ''Unspecified'')"
    by (rule ext) (simp add: clean_cell_def)
  have fa: "clean_cell lib ''Faculty Name'' = fillna (Str ''Unknown'')"
    by (rule ext) (simp add: clean_cell_def)
  have c1: "''Co-investigator'' \<in> set (columns df) \<longrightarrow>
            column_values df ''Co-investigator'' =
              map (\<lambda>v. if v = Null then Str ''None'' else v)
                  (column_values (unified fs) ''Co-investigator'')
            \<and> Null \<notin> set (column_values df ''Co-investigator'')"
    by (rule load_filled_column [OF assms(2) co])
  have c2: "''Domain'' \<in> set (columns df) \<longrightarrow>
            column_values df ''Domain'' =
              map (\<lambda>v. if v = Null then Str ''Unspecified'' else v)
                  (column_values (unified fs) ''Domain'')
            \<and> Null \<notin> set (column_values df ''Domain'')"
    by (rule load_filled_column [OF assms(2) dm])
  have c3: "''Faculty Name'' \<in> set (columns df) \<longrightarrow>
            column_values df ''Faculty Name'' =
              map (\<lambda>v. if v = Null then Str ''Unknown'' else v)
                  (column_values (unified fs) ''Faculty Name'')
            \<and> Null \<notin> set (column_values df ''Faculty Name'')"
    by (rule load_filled_column [OF assms(2) fa])
  from d dn c1 c2 c3 show ?thesis by (intro conjI)
qed

theorem department_tag_and_sentinels_witness:
  "wf_files gaps_files
   \<and> snd (load_and_clean_data example_lib gaps_files) = Inr gaps_result
   \<and> column_values gaps_result ''Department'' = [Str ''CSE'', Str ''ECE'']
   \<and> column_values (unified gaps_files) ''Faculty Name'' = [Null, Str ''Rao'']
   \<and> column_values gaps_result ''Faculty Name'' = [Str ''Unknown'', Str ''Rao'']"
proof -
  have w: "wf_files gaps_files" by code_simp
  have h: "snd (load_and_clean_data example_lib gaps_files) = Inr gaps_result" by code_simp
  have u: "column_values (unified gaps_files) ''Faculty Name'' = [Null, Str ''Rao'']"
    by code_simp
  have r: "concat (map (\<lambda>src. case fst (read_source gaps_files src) of
                                 None \<Rightarrow> []
                               | Some t \<Rightarrow> replicate (length (rows t)) (Str (fst src)))
                       files_to_check) = [Str ''CSE'', Str ''ECE'' :: real cell]"
    by code_simp
  have c: "''Faculty Name'' \<in> set (columns gaps_result)"
    by (simp add: gaps_result_def)
  note T = department_tag_and_sentinels [OF w h]
  have d: "column_values gaps_result ''Department'' = [Str ''CSE'', Str ''ECE'']"
    using T [THEN conjunct1] by (simp only: r)
  have "column_values gaps_result ''Faculty Name'' =
          map (\<lambda>v. if v = Null then Str ''Unknown'' else v)
              (column_values (unified gaps_files) ''Faculty Name'')"
    using T [THEN conjunct2, THEN conjunct2, THEN conjunct2, THEN conjunct2, THEN mp, OF c]
    by (rule conjunct1)
  then have f: "column_values gaps_result ''Faculty Name'' = [Str ''Unknown'', Str ''Rao'']"
    by (simp add: u)
  from w h d u f show ?thesis by (intro conjI)
qed

section \<open>Idempotence of the Normalizer\<close>

text \<open>
  C3 as stated (running the Normalizer on its own output changes nothing; the status
  chain applied twice to any text equals the chain applied once) fails on the text
  U+0149: \<^verbatim>\<open>capitalize\<close> turns it into U+02BC followed by a capital N, and the second
  run lowers that N. The same happens to a table whose status is that text.
\<close>

theorem status_chain_not_idempotent:
  "status_case [CHR 0xC5, CHR 0x89] = [CHR 0xCA, CHR 0xBC, CHR ''N'']
   \<and> status_case (status_case [CHR 0xC5, CHR 0x89]) = [CHR 0xCA, CHR 0xBC, CHR ''n'']
   \<and> status_case (status_case [CHR 0xC5, CHR 0x89]) \<noteq> status_case [CHR 0xC5, CHR 0x89]
   \<and> normalizer example_lib [apostrophe_n_table] = Inr apostrophe_n_once
   \<and> normalizer example_lib [apostrophe_n_once] = Inr apostrophe_n_twice
   \<and> apostrophe_n_twice \<noteq> apostrophe_n_once"
proof -
  have a: "status_case [CHR 0xC5, CHR 0x89] = [CHR 0xCA, CHR 0xBC, CHR ''N'']"
    by code_simp
  have b: "status_case [CHR 0xCA, CHR 0xBC, CHR ''N''] = [CHR 0xCA, CHR 0xBC, CHR ''n'']"
    by code_simp
  have c: "normalizer example_lib [apostrophe_n_table] = Inr apostrophe_n_once"
    by code_simp
  have d: "normalizer example_lib [apostrophe_n_once] = Inr apostrophe_n_twice"
    by code_simp
  have e: "apostrophe_n_twice \<noteq> apostrophe_n_once"
    by (simp add: apostrophe_n_twice_def apostrophe_n_once_def)
  from a b c d e show ?thesis by simp
qed

text \<open>
  C3 as amended, for ASCII status texts. Whatever table the Normalizer returns for a list
  of batches, if the texts of its status column are ASCII then the Normalizer returns the
  same table for the list holding just that table; the same holds for every non-empty
  table \<^verbatim>\<open>load_and_clean_data\<close> returns; and \<open>status_case\<close>, which is strip, lower,
  capitalize, applied twice to an ASCII text equals \<open>status_case\<close> applied once.
\<close>

theorem normalizer_idempotent_on_ascii:
  "(normalizer lib bs = Inr df \<and> ascii_status df \<longrightarrow> normalizer lib [df] = Inr df)
   \<and> (snd (load_and_clean_data lib fs) = Inr df' \<and> \<not> df_empty df' \<and> ascii_status df'
        \<longrightarrow> normalizer lib [df'] = Inr df')
   \<and> (list_all is_ascii s \<longrightarrow> status_case (status_case s) = status_case s)"
proof (intro conjI impI)
  assume "normalizer lib bs = Inr df \<and> ascii_status df"
  then show "normalizer lib [df] = Inr df" using normalizer_idem by blast
next
  assume a: "snd (load_and_clean_data lib fs) = Inr df' \<and> \<not> df_empty df' \<and> ascii_status df'"
  then have "fst (load_sources fs files_to_check) \<noteq> []"
    using load_nonempty_sources by blast
  then have "normalizer lib (fst (load_sources fs files_to_check)) = Inr df'"
    using a by (simp add: load_is_normalizer)
  then show "normalizer lib [df'] = Inr df'" using a normalizer_idem by blast
next
  assume "list_all is_ascii s"
  then show "status_case (status_case s) = status_case s" by (rule status_case_idem_ascii)
qed

theorem normalizer_idempotent_on_ascii_witness:
  "snd (load_and_clean_data example_lib scenario_files) = Inr scenario_result
   \<and> \<not> df_empty scenario_result
   \<and> ascii_status scenario_result
   \<and> normalizer example_lib [scenario_result] = Inr scenario_result
   \<and> list_all is_ascii ''COMPLETED''
   \<and> status_case ''COMPLETED'' = ''Completed''
   \<and> status_case (status_case ''COMPLETED'') = ''Completed''"
proof -
  have h: "snd (load_and_clean_data example_lib scenario_files) = Inr scenario_result"
    by code_simp
  have e: "\<not> df_empty scenario_result" by (simp add: df_empty_def scenario_result_def)
  have a: "ascii_status scenario_result" by code_simp
  have i: "list_all is_ascii ''COMPLETED''" by code_simp
  have c: "status_case ''COMPLETED'' = ''Completed''" by code_simp
  note T = normalizer_idempotent_on_ascii [of example_lib "[]" scenario_result scenario_files
      scenario_result "''COMPLETED''"]
  have n: "normalizer example_lib [scenario_result] = Inr scenario_result"
    using T [THEN conjunct2, THEN conjunct1, THEN mp, OF conjI [OF h conjI [OF e a]]] .
  have "status_case (status_case ''COMPLETED'') = ''Completed''"
    using T [THEN conjunct2, THEN conjunct2, THEN mp, OF i] by (simp only: c)
  with h e a n i c show ?thesis by (intro conjI)
qed

section \<open>An unreadable spreadsheet\<close>

text \<open>
  C4 (a spreadsheet that exists but cannot be read is a soft failure). For each source of
  \<^verbatim>\<open>files_to_check\<close> whose spreadsheet exists and whose read raises, the spreadsheet
  attempt contributes no table: the source's batch is whatever the CSV attempt gives, the
  only trace of the spreadsheet is the read itself, and the loader returns exactly what it
  returns when that spreadsheet is not there at all, so the other source is loaded as usual.
\<close>

theorem unreadable_spreadsheet_is_skipped:
  assumes "(dept, xlsx, csv) \<in> set files_to_check"
    and "path_exists fs xlsx" and "\<not> is_table (read_excel fs xlsx)"
  shows "read_source fs (dept, xlsx, csv) =
           (fst (try_csv fs dept csv), ReadExcel xlsx # snd (try_csv fs dept csv))
       \<and> snd (load_and_clean_data lib fs) =
           snd (load_and_clean_data lib (fs\<lparr>path_exists := (path_exists fs)(xlsx := False)\<rparr>))"
proof
  show "read_source fs (dept, xlsx, csv) =
           (fst (try_csv fs dept csv), ReadExcel xlsx # snd (try_csv fs dept csv))"
    using try_excel_failed [OF assms(2,3)]
    by (cases "try_csv fs dept csv") (simp add: read_source_def)
next
  let ?fs = "fs\<lparr>path_exists := (path_exists fs)(xlsx := False)\<rparr>"
  have "\<forall>src\<in>set files_to_check. fst (read_source ?fs src) = fst (read_source fs src)"
  proof
    fix src assume m: "src \<in> set files_to_check"
    obtain d' x' c' where src: "src = (d', x', c')" by (cases src)
    have "c' \<noteq> xlsx" using csv_names_differ [OF assms(1)] m src by simp
    then show "fst (read_source ?fs src) = fst (read_source fs src)"
      unfolding src using assms(2,3) by (intro read_source_without_spreadsheet)
  qed
  then have "fst (load_sources ?fs files_to_check) = fst (load_sources fs files_to_check)"
    by (simp add: fst_load_sources map_filter_def cong: filter_cong map_cong)
  then show "snd (load_and_clean_data lib fs) = snd (load_and_clean_data lib ?fs)"
    by (simp add: snd_load_by_batches)
qed

theorem unreadable_spreadsheet_is_skipped_witness:
  "(''CSE'', ''CSEDATA.xlsx'', ''CSEDATA.xlsx - Sheet1.csv'') \<in> set files_to_check
   \<and> path_exists broken_spreadsheet_files ''CSEDATA.xlsx''
   \<and> \<not> is_table (read_excel broken_spreadsheet_files ''CSEDATA.xlsx'')
   \<and> read_source broken_spreadsheet_files
        (''CSE'', ''CSEDATA.xlsx'', ''CSEDATA.xlsx - Sheet1.csv'') =
        (None, [ReadExcel ''CSEDATA.xlsx''])
   \<and> snd (load_and_clean_data example_lib
            (broken_spreadsheet_files
               \<lparr>path_exists := (path_exists broken_spreadsheet_files)(''CSEDATA.xlsx'' := False)\<rparr>))
       = Inr \<lparr>columns = [''Amount(in lakhs)'', ''Department''], rows = [[Num 3, Str ''ECE'']]\<rparr>"
proof -
  let ?src = "(''CSE'', ''CSEDATA.xlsx'', ''CSEDATA.xlsx - Sheet1.csv'')"
  have a: "?src \<in> set files_to_check" by (simp add: files_to_check_def)
  have b: "path_exists broken_spreadsheet_files ''CSEDATA.xlsx''"
    by (simp add: broken_spreadsheet_files_def)
  have c: "\<not> is_table (read_excel broken_spreadsheet_files ''CSEDATA.xlsx'')"
    by (simp add: broken_spreadsheet_files_def is_table_def)
  have t: "try_csv broken_spreadsheet_files ''CSE'' ''CSEDATA.xlsx - Sheet1.csv'' = (None, [])"
    by (simp add: try_csv_def broken_spreadsheet_files_def)
  have l: "snd (load_and_clean_data example_lib broken_spreadsheet_files)
       = Inr \<lparr>columns = [''Amount(in lakhs)'', ''Department''], rows = [[Num 3, Str ''ECE'']]\<rparr>"
    by code_simp
  note T = unreadable_spreadsheet_is_skipped [OF a b c, of example_lib]
  have r: "read_source broken_spreadsheet_files ?src = (None, [ReadExcel ''CSEDATA.xlsx''])"
    using T [THEN conjunct1] by (simp only: t fst_conv snd_conv)
  have "snd (load_and_clean_data example_lib
            (broken_spreadsheet_files
               \<lparr>path_exists := (path_exists broken_spreadsheet_files)(''CSEDATA.xlsx'' := False)\<rparr>))
       = Inr \<lparr>columns = [''Amount(in lakhs)'', ''Department''], rows = [[Num 3, Str ''ECE'']]\<rparr>"
    using T [THEN conjunct2] by (simp only: l)
  with a b c r show ?thesis by (intro conjI)
qed

section \<open>The CSV attempt\<close>

text \<open>
  C5 (decoding failure: one retry under Latin-1, with a notice on success; any other
  failure: a warning, source unavailable). For a source whose CSV file exists and whose
  spreadsheet attempt gave no table: if the first read fails to decode and the Latin-1 read
  returns a table, the reads are exactly one under the default encoding and one under
  Latin-1, a toast follows, the table is the source's batch and, for a source of
  \<^verbatim>\<open>files_to_check\<close>, its tagged batch is among those concatenated; if the Latin-1 read
  fails too, or the first read fails otherwise (then without a second read), a warning is
  shown and no table is read; and a source of \<^verbatim>\<open>files_to_check\<close> without a table gets the
  error message of line 50.
\<close>

theorem csv_fallback_and_warnings:
  assumes "fst (try_excel fs xlsx) = None" and "path_exists fs csv"
  shows "(read_csv fs csv Utf8 = UnicodeDecodeError \<and> read_csv fs csv Latin1 = Table t \<longrightarrow>
            read_source fs (dept, xlsx, csv) =
              (Some t, snd (try_excel fs xlsx) @
                       [ReadCsv csv Utf8, ReadCsv csv Latin1, Toast dept])
            \<and> ((dept, xlsx, csv) \<in> set files_to_check \<longrightarrow>
                 tag_batch dept t \<in> set (fst (load_sources fs files_to_check))))
       \<and> (read_csv fs csv Utf8 = UnicodeDecodeError \<and> \<not> is_table (read_csv fs csv Latin1) \<longrightarrow>
            read_source fs (dept, xlsx, csv) =
              (None, snd (try_excel fs xlsx) @
                     [ReadCsv csv Utf8, ReadCsv csv Latin1, WarnAnyEncoding csv]))
       \<and> (read_csv fs csv Utf8 = OtherError \<longrightarrow>
            read_source fs (dept, xlsx, csv) =
              (None, snd (try_excel fs xlsx) @ [ReadCsv csv Utf8, WarnRead csv]))
       \<and> (fst (read_source fs (dept, xlsx, csv)) = None \<and>
            (dept, xlsx, csv) \<in> set files_to_check \<longrightarrow>
            ErrorNoData dept \<in> set (snd (load_sources fs files_to_check)))"
proof (intro conjI impI)
  assume a: "read_csv fs csv Utf8 = UnicodeDecodeError \<and> read_csv fs csv Latin1 = Table t"
  then show r: "read_source fs (dept, xlsx, csv) =
              (Some t, snd (try_excel fs xlsx) @
                       [ReadCsv csv Utf8, ReadCsv csv Latin1, Toast dept])"
    using assms by (simp add: read_source_after_excel try_csv_def)
  assume "(dept, xlsx, csv) \<in> set files_to_check"
  then show "tag_batch dept t \<in> set (fst (load_sources fs files_to_check))"
    using loaded_batch_member [of "(dept, xlsx, csv)" files_to_check fs t] r by simp
next
  assume "read_csv fs csv Utf8 = UnicodeDecodeError \<and> \<not> is_table (read_csv fs csv Latin1)"
  then show "read_source fs (dept, xlsx, csv) =
              (None, snd (try_excel fs xlsx) @
                     [ReadCsv csv Utf8, ReadCsv csv Latin1, WarnAnyEncoding csv])"
    using assms
    by (cases "read_csv fs csv Latin1")
       (simp_all add: read_source_after_excel try_csv_def is_table_def)
next
  assume "read_csv fs csv Utf8 = OtherError"
  then show "read_source fs (dept, xlsx, csv) =
              (None, snd (try_excel fs xlsx) @ [ReadCsv csv Utf8, WarnRead csv])"
    using assms by (simp add: read_source_after_excel try_csv_def)
next
  assume "fst (read_source fs (dept, xlsx, csv)) = None \<and>
            (dept, xlsx, csv) \<in> set files_to_check"
  then show "ErrorNoData dept \<in> set (snd (load_sources fs files_to_check))"
    using error_event_when_unavailable [of fs "(dept, xlsx, csv)" files_to_check] by simp
qed

theorem csv_fallback_and_warnings_witness:
  "fst (try_excel latin1_files ''CSEDATA.xlsx'') = None
   \<and> path_exists latin1_files ''CSEDATA.xlsx - Sheet1.csv''
   \<and> read_csv latin1_files ''CSEDATA.xlsx - Sheet1.csv'' Utf8 = UnicodeDecodeError
   \<and> read_csv latin1_files ''CSEDATA.xlsx - Sheet1.csv'' Latin1 =
        Table \<lparr>columns = [''Amount(in lakhs)''], rows = [[Str ''4'']]\<rparr>
   \<and> read_source latin1_files (''CSE'', ''CSEDATA.xlsx'', ''CSEDATA.xlsx - Sheet1.csv'') =
        (Some \<lparr>columns = [''Amount(in lakhs)''], rows = [[Str ''4'']]\<rparr>,
         [ReadCsv ''CSEDATA.xlsx - Sheet1.csv'' Utf8,
          ReadCsv ''CSEDATA.xlsx - Sheet1.csv'' Latin1, Toast ''CSE''])
   \<and> load_and_clean_data example_lib latin1_files =
        ([ReadCsv ''CSEDATA.xlsx - Sheet1.csv'' Utf8,
          ReadCsv ''CSEDATA.xlsx - Sheet1.csv'' Latin1, Toast ''CSE'',
          ReadCsv ''ECEDATA.xlsx - Sheet1.csv'' Utf8, WarnRead ''ECEDATA.xlsx - Sheet1.csv'',
          ErrorNoData ''ECE''],
         Inr \<lparr>columns = [''Amount(in lakhs)'', ''Department''],
              rows = [[Num 4, Str ''CSE'']]\<rparr>)"
proof -
  let ?csv = "''CSEDATA.xlsx - Sheet1.csv''"
  let ?t = "\<lparr>columns = [''Amount(in lakhs)''], rows = [[Str ''4'' :: real cell]]\<rparr>"
  have a: "fst (try_excel latin1_files ''CSEDATA.xlsx'') = None"
    by (simp add: try_excel_def latin1_files_def)
  have b: "path_exists latin1_files ?csv" by (simp add: latin1_files_def)
  have c: "read_csv latin1_files ?csv Utf8 = UnicodeDecodeError"
    by (simp add: latin1_files_def)
  have d: "read_csv latin1_files ?csv Latin1 = Table ?t" by (simp add: latin1_files_def)
  have e: "snd (try_excel latin1_files ''CSEDATA.xlsx'') = []"
    by (simp add: try_excel_def latin1_files_def)
  have "read_source latin1_files (''CSE'', ''CSEDATA.xlsx'', ?csv) =
          (Some ?t, snd (try_excel latin1_files ''CSEDATA.xlsx'') @
                    [ReadCsv ?csv Utf8, ReadCsv ?csv Latin1, Toast ''CSE''])"
    using csv_fallback_and_warnings [OF a b, of ?t "''CSE''", THEN conjunct1, THEN mp,
        OF conjI [OF c d]]
    by (rule conjunct1)
  then have r: "read_source latin1_files (''CSE'', ''CSEDATA.xlsx'', ?csv) =
          (Some ?t, [ReadCsv ?csv Utf8, ReadCsv ?csv Latin1, Toast ''CSE''])"
    by (simp only: e append_Nil)
  have l: "load_and_clean_data example_lib latin1_files =
        ([ReadCsv ''CSEDATA.xlsx - Sheet1.csv'' Utf8,
          ReadCsv ''CSEDATA.xlsx - Sheet1.csv'' Latin1, Toast ''CSE'',
          ReadCsv ''ECEDATA.xlsx - Sheet1.csv'' Utf8, WarnRead ''ECEDATA.xlsx - Sheet1.csv'',
          ErrorNoData ''ECE''],
         Inr \<lparr>columns = [''Amount(in lakhs)'', ''Department''],
              rows = [[Num 4, Str ''CSE'']]\<rparr>)"
    by code_simp
  from a b c d r l show ?thesis by (intro conjI)
qed

section \<open>No source at all\<close>

text \<open>
  C6 (when every source fails, the loader returns the empty table and \<^verbatim>\<open>main\<close> stops
  before any chart). If every source of \<^verbatim>\<open>files_to_check\<close> fails to load, the loader
  returns \<^verbatim>\<open>pd.DataFrame()\<close> without raising, having shown the error message for each
  source, and \<^verbatim>\<open>main\<close> takes the branch of lines 85-87 whatever the sidebar choices.
\<close>

theorem all_sources_fail_then_stop:
  assumes "\<forall>src\<in>set files_to_check. source_fails fs src"
  shows "snd (load_and_clean_data lib fs) = Inr empty_frame
       \<and> main lib fs d s = Stopped
       \<and> (\<forall>src\<in>set files_to_check.
            ErrorNoData (fst src) \<in> set (fst (load_and_clean_data lib fs)))"
proof -
  have n: "fst (load_sources fs files_to_check) = []"
    using assms by (rule load_sources_all_fail)
  then have l: "snd (load_and_clean_data lib fs) = Inr empty_frame"
    by (simp add: snd_load_by_batches)
  have m: "main lib fs d s = Stopped"
    by (simp add: main_def l df_empty_def empty_frame_def)
  have ev: "fst (load_and_clean_data lib fs) = snd (load_sources fs files_to_check)"
    by (cases "load_sources fs files_to_check") (simp add: load_and_clean_data_def)
  have "\<forall>src\<in>set files_to_check.
            ErrorNoData (fst src) \<in> set (fst (load_and_clean_data lib fs))"
    unfolding ev using assms by (auto intro: error_event_when_unavailable source_fails_read)
  with l m show ?thesis by (intro conjI)
qed

theorem all_sources_fail_then_stop_witness:
  "list_all (source_fails empty_directory) files_to_check
   \<and> load_and_clean_data example_lib empty_directory =
       ([ErrorNoData ''CSE'', ErrorNoData ''ECE''], Inr empty_frame)
   \<and> main example_lib empty_directory ''All'' ''All'' = Stopped"
proof -
  have a: "\<forall>src\<in>set files_to_check. source_fails empty_directory src"
    by (simp add: files_to_check_def source_fails_def empty_directory_def)
  have a': "list_all (source_fails empty_directory) files_to_check"
    using a by (simp only: list_all_iff)
  have l: "load_and_clean_data example_lib empty_directory =
       ([ErrorNoData ''CSE'', ErrorNoData ''ECE''], Inr empty_frame)"
    by code_simp
  have "main example_lib empty_directory ''All'' ''All'' = Stopped"
    using all_sources_fail_then_stop [OF a, of example_lib "''All''" "''All''"]
    by (rule conjunct2 [THEN conjunct1])
  with a' l show ?thesis by (intro conjI)
qed

section \<open>The sidebar filters\<close>

text \<open>
  C7 (the wildcard keeps every row; a department or status choice keeps exactly the rows
  that carry it; the status choice counts only when there is a status column). On every
  non-empty table the loader returns, lines 100-104 raise nothing and keep the columns and
  exactly the rows \<open>r\<close> such that the department choice is \<^verbatim>\<open>All\<close> or equals \<open>r\<close>'s
  \<^verbatim>\<open>Department\<close>, and the status choice is \<^verbatim>\<open>All\<close>, or there is no \<^verbatim>\<open>Status\<close> column,
  or the choice equals \<open>r\<close>'s \<^verbatim>\<open>Status\<close>.
\<close>

theorem filters_keep_exactly_matching_rows:
  assumes "snd (load_and_clean_data lib fs) = Inr df" and "\<not> df_empty df"
  shows "apply_filters df d s =
           Inr (df\<lparr>rows := filter (\<lambda>r. (d = ''All'' \<or> cell_at (columns df) r ''Department'' = Str d) \<and>
                                       (s = ''All'' \<or> ''Status'' \<notin> set (columns df) \<or>
                                        cell_at (columns df) r ''Status'' = Str s))
                                 (rows df)\<rparr>)"
  using load_Department_present [OF assms] by (rule apply_filters_eq)

theorem filters_keep_exactly_matching_rows_witness:
  "snd (load_and_clean_data example_lib scenario_files) = Inr scenario_result
   \<and> \<not> df_empty scenario_result
   \<and> apply_filters scenario_result ''CSE'' ''All'' =
       Inr \<lparr>columns = [''Status'', ''Amount(in lakhs)'', ''Department''],
            rows = [[Str ''Ongoing'', Num 10, Str ''CSE'']]\<rparr>
   \<and> apply_filters scenario_result ''All'' ''All'' = Inr scenario_result"
proof -
  have h: "snd (load_and_clean_data example_lib scenario_files) = Inr scenario_result"
    by code_simp
  have e: "\<not> df_empty scenario_result" by (simp add: df_empty_def scenario_result_def)
  have a: "apply_filters scenario_result ''CSE'' ''All'' =
       Inr \<lparr>columns = [''Status'', ''Amount(in lakhs)'', ''Department''],
            rows = [[Str ''Ongoing'', Num 10, Str ''CSE'']]\<rparr>"
    unfolding filters_keep_exactly_matching_rows [OF h e]
    by (simp add: scenario_result_def cell_at_def)
  have b: "apply_filters scenario_result ''All'' ''All'' = Inr scenario_result"
    unfolding filters_keep_exactly_matching_rows [OF h e]
    by (simp add: scenario_result_def)
  from h e a b show ?thesis by (intro conjI)
qed

section \<open>The four numbers\<close>

text \<open>
  C8 (the average is the total over the count, and 0 for a count of 0; without a
  \<^verbatim>\<open>Faculty Name\<close> column the researcher count is 0). On every non-empty table the loader
  returns and for every pair of sidebar choices, \<^verbatim>\<open>main\<close> reaches line 112 without an
  exception: the project count is the number of filtered rows, the total is the sum of
  their amounts, the average is the total divided by the count when the count is positive
  and 0 when it is 0, and the researcher count is 0 when the table has no
  \<^verbatim>\<open>Faculty Name\<close> column.
\<close>

theorem average_guarded_against_zero_count:
  assumes "snd (load_and_clean_data lib fs) = Inr df" and "\<not> df_empty df"
  shows "\<exists>df_filtered m.
           main lib fs d s = Shown df_filtered m
         \<and> total_projects m = length (rows df_filtered)
         \<and> series_sum lib (column_values df_filtered ''Amount(in lakhs)'') = Inr (total_funding m)
         \<and> (0 < total_projects m \<longrightarrow>
              avg_funding m = total_funding m / of_count lib (total_projects m))
         \<and> (total_projects m = 0 \<longrightarrow> avg_funding m = 0)
         \<and> (''Faculty Name'' \<notin> set (columns df) \<longrightarrow> unique_faculty m = 0)"
proof -
  let ?A = "''Amount(in lakhs)''"
  let ?s = "if ''Status'' \<in> set (columns df) then s else ''All''"
  have dep: "''Department'' \<in> set (columns df)" using assms by (rule load_Department_present)
  obtain P where f: "apply_filters df d ?s = Inr (df\<lparr>rows := filter P (rows df)\<rparr>)"
    using apply_filters_eq [OF dep, of d ?s] by blast
  let ?f = "df\<lparr>rows := filter P (rows df)\<rparr>"
  have a: "?A \<in> set (columns ?f)" using load_amount_present [OF assms] by simp
  have "\<forall>v\<in>set (column_values ?f ?A). \<exists>x. v = Num x"
    using load_amount_cells [OF assms] by (auto simp: column_values_def)
  then have sm: "series_sum lib (column_values ?f ?A)
                   = Inr (sum_values lib (List.map_filter num_of (column_values ?f ?A)))"
    by (rule series_sum_numbers)
  let ?t = "sum_values lib (List.map_filter num_of (column_values ?f ?A))"
  let ?n = "length (rows ?f)"
  let ?m = "\<lparr>total_funding = ?t, total_projects = ?n,
             unique_faculty = (if ''Faculty Name'' \<in> set (columns df)
                               then nunique (column_values ?f ''Faculty Name'') else 0),
             avg_funding = (if ?n > 0 then ?t / of_count lib ?n else 0)\<rparr>"
  have cm: "compute_metrics lib df ?f = Inr ?m"
    using a by (simp add: compute_metrics_def sm Let_def)
  have mn: "main lib fs d s = Shown ?f ?m"
    using assms dep by (simp add: main_def Let_def f cm)
  show ?thesis
  proof (intro exI conjI)
    show "main lib fs d s = Shown ?f ?m" by (rule mn)
    show "total_projects ?m = length (rows ?f)" by simp
    show "series_sum lib (column_values ?f ?A) = Inr (total_funding ?m)" using sm by simp
    show "0 < total_projects ?m \<longrightarrow>
            avg_funding ?m = total_funding ?m / of_count lib (total_projects ?m)" by simp
    show "total_projects ?m = 0 \<longrightarrow> avg_funding ?m = 0" by simp
    show "''Faculty Name'' \<notin> set (columns df) \<longrightarrow> unique_faculty ?m = 0" by simp
  qed
qed

theorem average_guarded_against_zero_count_witness:
  "snd (load_and_clean_data example_lib scenario_files) = Inr scenario_result
   \<and> \<not> df_empty scenario_result
   \<and> main example_lib scenario_files ''CSE'' ''All'' =
       Shown \<lparr>columns = [''Status'', ''Amount(in lakhs)'', ''Department''],
              rows = [[Str ''Ongoing'', Num 10, Str ''CSE'']]\<rparr>
             \<lparr>total_funding = 10, total_projects = 1, unique_faculty = 0, avg_funding = 10\<rparr>
   \<and> main example_lib scenario_files ''CSE'' ''Completed'' =
       Shown \<lparr>columns = [''Status'', ''Amount(in lakhs)'', ''Department''], rows = []\<rparr>
             \<lparr>total_funding = 0, total_projects = 0, unique_faculty = 0, avg_funding = 0\<rparr>
   \<and> (\<exists>df_filtered m. main example_lib scenario_files ''CSE'' ''Completed'' = Shown df_filtered m
         \<and> total_projects m = 0 \<and> avg_funding m = 0)"
proof -
  have h: "snd (load_and_clean_data example_lib scenario_files) = Inr scenario_result"
    by code_simp
  have e: "\<not> df_empty scenario_result" by (simp add: df_empty_def scenario_result_def)
  have m1: "main example_lib scenario_files ''CSE'' ''All'' =
       Shown \<lparr>columns = [''Status'', ''Amount(in lakhs)'', ''Department''],
              rows = [[Str ''Ongoing'', Num 10, Str ''CSE'']]\<rparr>
             \<lparr>total_funding = 10, total_projects = 1, unique_faculty = 0, avg_funding = 10\<rparr>"
    by code_simp
  have m2: "main example_lib scenario_files ''CSE'' ''Completed'' =
       Shown \<lparr>columns = [''Status'', ''Amount(in lakhs)'', ''Department''], rows = []\<rparr>
             \<lparr>total_funding = 0, total_projects = 0, unique_faculty = 0, avg_funding = 0\<rparr>"
    by code_simp
  note T = average_guarded_against_zero_count [OF h e, of "''CSE''" "''Completed''"]
  from T obtain dff where "\<exists>m. main example_lib scenario_files ''CSE'' ''Completed'' = Shown dff m
         \<and> total_projects m = length (rows dff)
         \<and> series_sum example_lib (column_values dff ''Amount(in lakhs)'') = Inr (total_funding m)
         \<and> (0 < total_projects m \<longrightarrow>
              avg_funding m = total_funding m / of_count example_lib (total_projects m))
         \<and> (total_projects m = 0 \<longrightarrow> avg_funding m = 0)
         \<and> (''Faculty Name'' \<notin> set (columns scenario_result) \<longrightarrow> unique_faculty m = 0)" ..
  then obtain m where X: "main example_lib scenario_files ''CSE'' ''Completed'' = Shown dff m
         \<and> total_projects m = length (rows dff)
         \<and> series_sum example_lib (column_values dff ''Amount(in lakhs)'') = Inr (total_funding m)
         \<and> (0 < total_projects m \<longrightarrow>
              avg_funding m = total_funding m / of_count example_lib (total_projects m))
         \<and> (total_projects m = 0 \<longrightarrow> avg_funding m = 0)
         \<and> (''Faculty Name'' \<notin> set (columns scenario_result) \<longrightarrow> unique_faculty m = 0)" ..
  have x1: "main example_lib scenario_files ''CSE'' ''Completed'' = Shown dff m"
    using X by (rule conjunct1)
  have x5: "total_projects m = 0 \<longrightarrow> avg_funding m = 0"
    using X [THEN conjunct2, THEN conjunct2, THEN conjunct2, THEN conjunct2] by (rule conjunct1)
  have z: "total_projects m = 0" using x1 unfolding m2 by auto
  with x5 have "avg_funding m = 0" by (rule mp)
  with x1 z have "\<exists>df_filtered m. main example_lib scenario_files ''CSE'' ''Completed'' = Shown df_filtered m
         \<and> total_projects m = 0 \<and> avg_funding m = 0"
    by (intro exI conjI)
  with h e m1 m2 show ?thesis by (intro conjI)
qed

end
